theory Spec2Isabelle
  imports Main "HOL-Library.Word" "HOL-Library.Signed_Division" "HOL-Library.Multiset"
begin

section \<open>Machine integers, strings and errors\<close>

text \<open>
  Go's \<open>int64\<close> is a 64-bit two's complement word: \<open>+\<close>, \<open>-\<close> and \<open>*\<close> wrap around,
  comparisons are the signed ones (\<open>\<le>s\<close>, \<open><s\<close>), and \<open>sint\<close> reads the value. Go's
  \<open>int\<close> is taken at its 64-bit width, so that the conversions \<open>int64(numChunks)\<close> and
  \<open>int(fileSize)\<close> of the source are the identity.
\<close>

type_synonym int64 = "64 word"
type_synonym go_int = "64 word"
type_synonym byte = "8 word"

text \<open>Go's \<open>/\<close> on \<open>int64\<close> truncates towards zero (\<open>sdiv\<close> on \<open>int\<close>).\<close>

definition int64_div :: "int64 \<Rightarrow> int64 \<Rightarrow> int64" where
  "int64_div a b = word_of_int (sint a sdiv sint b)"

text \<open>The verb \<open>%d\<close> of \<open>fmt.Sprintf\<close>: decimal digits, with a minus sign below zero.\<close>

function nat_to_dec :: "nat \<Rightarrow> string" where
  "nat_to_dec n =
     (if n < 10 then [char_of (48 + n)]
      else nat_to_dec (n div 10) @ [char_of (48 + n mod 10)])"
  by pat_completeness auto
termination
  by (relation "measure (\<lambda>n. n)") auto

definition Sprintf_d :: "int \<Rightarrow> string" where
  "Sprintf_d i = (if i < 0 then CHR ''-'' # nat_to_dec (nat (- i)) else nat_to_dec (nat i))"

text \<open>
  \<open>filepath.Join(dir, name)\<close> for a directory path in clean form (no trailing separator,
  no \<open>.\<close> or \<open>..\<close> element), as \<open>os.MkdirTemp\<close> returns it: empty elements are dropped and
  the rest is joined by the separator.
\<close>

definition filepath_Join :: "string \<Rightarrow> string \<Rightarrow> string" where
  "filepath_Join dir name =
     (if dir = [] then name else if name = [] then dir else dir @ ''/'' @ name)"

text \<open>
  One constructor for each place where the source builds an error value; an error made
  with \<open>%w\<close> carries its cause. \<open>SysError\<close> is a failing system call on a path,
  \<open>NetError\<close> a failing HTTP exchange, and \<open>NilResponse\<close> stands for the use of a \<open>nil\<close>
  response, which \<open>DoRequestWithRetry\<close> never hands out together with a \<open>nil\<close> error.
\<close>

datatype error =
    SysError string
  | NetError
  | NilResponse
  | InvalidFileSize int64
  | CreateDirFailed error
  | CreateFileFailed error
  | OpenFailed string error
  | CopyFailed string error
  | MergeChunksFailed error
  | CreateTempFailed error
  | CreateRequestFailed error
  | SendRequestFailed error
  | UnexpectedStatus nat
  | WriteFailed error
  | ReadFailed error
  | ChunkFailed go_int error

section \<open>The file system\<close>

text \<open>
  Files are a map from paths to contents. System calls can fail for reasons the program
  does not control (permissions, a full disk, a broken device), so the paths where they
  fail are part of the state: \<open>mkdir_fails p\<close> when the directory of \<open>p\<close> cannot be made,
  \<open>create_fails p\<close> when \<open>p\<close> cannot be created, \<open>open_fails p\<close> when \<open>p\<close> exists and cannot be
  opened, and \<open>copy_fails p = Some k\<close> when reading \<open>p\<close> breaks after \<open>k\<close> bytes. An open
  file is named by its path.
\<close>

record filesystem =
  files :: "string \<rightharpoonup> byte list"
  mkdir_fails :: "string \<Rightarrow> bool"
  create_fails :: "string \<Rightarrow> bool"
  open_fails :: "string \<Rightarrow> bool"
  copy_fails :: "string \<Rightarrow> nat option"

text \<open>\<open>os.Create\<close> makes the file or truncates it.\<close>

definition os_Create :: "string \<Rightarrow> filesystem \<Rightarrow> (error + string) \<times> filesystem" where
  "os_Create path fs =
     (if create_fails fs path then (Inl (SysError path), fs)
      else (Inr path, fs\<lparr>files := (files fs)(path \<mapsto> [])\<rparr>))"

definition os_Open :: "string \<Rightarrow> filesystem \<Rightarrow> error + string" where
  "os_Open path fs =
     (if files fs path = None \<or> open_fails fs path then Inl (SysError path) else Inr path)"

definition file_contents :: "filesystem \<Rightarrow> string \<Rightarrow> byte list" where
  "file_contents fs path = (case files fs path of None \<Rightarrow> [] | Some bytes \<Rightarrow> bytes)"

text \<open>\<open>file.Write\<close> on a file opened by \<open>os.Create\<close> appends at the end.\<close>

definition file_Write :: "string \<Rightarrow> byte list \<Rightarrow> filesystem \<Rightarrow> filesystem" where
  "file_Write file bytes fs = fs\<lparr>files := (files fs)(file \<mapsto> file_contents fs file @ bytes)\<rparr>"

text \<open>
  \<open>io.CopyBuffer(dst, src, buffer)\<close> appends what \<open>src\<close> holds to \<open>dst\<close>, all of it or, when
  reading breaks, the part read so far. Source and destination are two files.
\<close>

definition io_CopyBuffer :: "string \<Rightarrow> string \<Rightarrow> filesystem \<Rightarrow> error option \<times> filesystem" where
  "io_CopyBuffer dst src fs =
     (case copy_fails fs src of
        Some k \<Rightarrow> (Some (SysError src), file_Write dst (take k (file_contents fs src)) fs)
      | None \<Rightarrow> (None, file_Write dst (file_contents fs src) fs))"

definition CreateFile :: "string \<Rightarrow> filesystem \<Rightarrow> (error + string) \<times> filesystem" where
  "CreateFile path fs =
     (if mkdir_fails fs path then (Inl (CreateDirFailed (SysError path)), fs)
      else case os_Create path fs of
             (Inl e, fs1) \<Rightarrow> (Inl (CreateFileFailed e), fs1)
           | (Inr file, fs1) \<Rightarrow> (Inr file, fs1))"

section \<open>Chunks\<close>

record Chunk =
  ID :: go_int
  URL :: string
  Start :: int64
  End :: int64
  TempFile :: string
  Size :: int64
  Downloaded :: int64
  Completed :: bool
  Failed :: bool
  RetryCount :: go_int

definition NewChunk :: "go_int \<Rightarrow> string \<Rightarrow> int64 \<Rightarrow> int64 \<Rightarrow> string \<Rightarrow> Chunk" where
  "NewChunk cid url start end' tempDir =
     \<lparr> ID = cid,
       URL = url,
       Start = start,
       End = end',
       TempFile = filepath_Join tempDir (''chunk_'' @ Sprintf_d (sint cid)),
       Size = end' - start + 1,
       Downloaded = 0,
       Completed = False,
       Failed = False,
       RetryCount = 0 \<rparr>"

text \<open>
  The methods of \<open>Chunk\<close> run under the chunk's mutex, so each is one atomic update of
  the chunk.
\<close>

definition UpdateProgress :: "int64 \<Rightarrow> Chunk \<Rightarrow> Chunk" where
  "UpdateProgress bytesRead c =
     (let c1 = c\<lparr>Downloaded := Downloaded c + bytesRead\<rparr>
      in if Size c1 \<le>s Downloaded c1 then c1\<lparr>Completed := True\<rparr> else c1)"

definition MarkFailed :: "Chunk \<Rightarrow> Chunk" where
  "MarkFailed c = c\<lparr>Failed := True, RetryCount := RetryCount c + 1\<rparr>"

text \<open>
  \<open>ResetForRetry\<close> removes the temporary file when \<open>os.Stat\<close> finds it, then clears
  \<open>Downloaded\<close> and \<open>Failed\<close>.
\<close>

definition ResetForRetry :: "filesystem \<Rightarrow> Chunk \<Rightarrow> filesystem \<times> Chunk" where
  "ResetForRetry fs c =
     (let fs1 = (if files fs (TempFile c) \<noteq> None
                 then fs\<lparr>files := (files fs)(TempFile c := None)\<rparr> else fs)
      in (fs1, c\<lparr>Downloaded := 0, Failed := False\<rparr>))"

text \<open>
  A slice of chunk pointers that is only read is the list of the chunks pointed to.
\<close>

fun ValidateChunks :: "Chunk list \<Rightarrow> bool" where
  "ValidateChunks [] = True"
| "ValidateChunks (chunk # chunks) =
     (if \<not> Completed chunk \<or> Failed chunk then False else ValidateChunks chunks)"

definition GetTempFilePaths :: "Chunk list \<Rightarrow> string list" where
  "GetTempFilePaths chunks = map TempFile chunks"

section \<open>The chunk planner\<close>

text \<open>
  The body of the \<open>for\<close> loop of \<open>CalculateChunks\<close>, from index \<open>i\<close> on. The slice
  \<open>chunks\<close> is filled at the indices \<open>0, 1, \<dots>\<close> in turn, which builds the list front to
  back. The loop ends because \<open>i\<close> stays below \<open>numChunks\<close>, so \<open>i + 1\<close> does not wrap.
\<close>

function chunks_loop ::
  "string \<Rightarrow> int64 \<Rightarrow> go_int \<Rightarrow> int64 \<Rightarrow> string \<Rightarrow> go_int \<Rightarrow> Chunk list" where
  "chunks_loop url fileSize numChunks chunkSize tempDir i =
     (if i <s numChunks then
        (let start = i * chunkSize;
             end' = (if i = numChunks - 1 then fileSize - 1 else start + chunkSize - 1)
         in NewChunk i url start end' tempDir
              # chunks_loop url fileSize numChunks chunkSize tempDir (i + 1))
      else [])"
  by pat_completeness auto
termination
proof (relation "measure (\<lambda>(url, fileSize, numChunks, chunkSize, tempDir, i).
                     nat (sint numChunks - sint i))")
  show "wf (measure (\<lambda>(url, fileSize, numChunks, chunkSize, tempDir, i).
                     nat (sint numChunks - sint i)))" by simp
next
  fix url :: string and fileSize numChunks chunkSize :: "64 word" and tempDir :: string
    and i :: "64 word"
  assume "i <s numChunks"
  then have lt: "sint i < sint numChunks" by (simp add: word_sless_alt)
  have "sint numChunks < 2 ^ 63" "- (2 ^ 63) \<le> sint i"
    using sint_lt [of numChunks] sint_ge [of i] by simp_all
  then have "signed_take_bit 63 (sint i + 1) = sint i + 1"
    using lt by (intro signed_take_bit_int_eq_self) simp_all
  then have "sint (i + 1) = sint i + 1" by (simp add: sint_word_ariths)
  then show "((url, fileSize, numChunks, chunkSize, tempDir, i + 1),
              (url, fileSize, numChunks, chunkSize, tempDir, i))
           \<in> measure (\<lambda>(url, fileSize, numChunks, chunkSize, tempDir, i).
                     nat (sint numChunks - sint i))"
    using lt by simp
qed

definition CalculateChunks ::
  "string \<Rightarrow> int64 \<Rightarrow> go_int \<Rightarrow> string \<Rightarrow> error + Chunk list" where
  "CalculateChunks url fileSize numChunks tempDir =
     (if fileSize \<le>s 0 then Inl (InvalidFileSize fileSize)
      else
        let numChunks1 = (if numChunks \<le>s 0 then 1 else numChunks);
            numChunks2 = (if fileSize <s numChunks1 then fileSize else numChunks1);
            chunkSize = int64_div fileSize numChunks2
        in Inr (chunks_loop url fileSize numChunks2 chunkSize tempDir 0))"

section \<open>Merging the chunk files\<close>

text \<open>
  The loop of \<open>MergeFiles\<close> over the input paths: open, copy, close, and stop at the
  first error, which leaves the output as far as it was written. \<open>MergeFiles\<close> creates
  the output file first; \<open>mergeChunks\<close> merges the temporary files of the chunks of the
  downloader into its output path.
\<close>

fun merge_loop :: "string \<Rightarrow> string list \<Rightarrow> filesystem \<Rightarrow> error option \<times> filesystem" where
  "merge_loop outFile [] fs = (None, fs)"
| "merge_loop outFile (inputPath # inputPaths) fs =
     (case os_Open inputPath fs of
        Inl e \<Rightarrow> (Some (OpenFailed inputPath e), fs)
      | Inr inFile \<Rightarrow>
          (case io_CopyBuffer outFile inFile fs of
             (Some e, fs1) \<Rightarrow> (Some (CopyFailed inputPath e), fs1)
           | (None, fs1) \<Rightarrow> merge_loop outFile inputPaths fs1))"

definition MergeFiles :: "string \<Rightarrow> string list \<Rightarrow> filesystem \<Rightarrow> error option \<times> filesystem" where
  "MergeFiles outputPath inputPaths fs =
     (case CreateFile outputPath fs of
        (Inl e, fs1) \<Rightarrow> (Some e, fs1)
      | (Inr outFile, fs1) \<Rightarrow> merge_loop outFile inputPaths fs1)"

definition mergeChunks :: "string \<Rightarrow> Chunk list \<Rightarrow> filesystem \<Rightarrow> error option \<times> filesystem" where
  "mergeChunks outputPath chunks fs =
     (let paths = GetTempFilePaths chunks
      in case MergeFiles outputPath paths fs of
           (Some e, fs1) \<Rightarrow> (Some (MergeChunksFailed e), fs1)
         | (None, fs1) \<Rightarrow> (None, fs1))"

section \<open>Fetching one chunk\<close>

text \<open>
  What the network does during one fetch is given from outside. A call of \<open>Body.Read\<close>
  yields some bytes and one of: no error (\<open>More\<close>), \<open>io.EOF\<close>, another error
  (\<open>Broken\<close>); the flag of a read event says whether writing these bytes to the
  temporary file succeeds. A body whose events run out has reached its end. A call of
  \<open>client.Do\<close> yields no response or a status code with a body. A fetch ends: the
  client of a worker has a timeout, which covers the reading of the body.
\<close>

datatype read_status = More | EOF | Broken

type_synonym read_event = "byte list \<times> bool \<times> read_status"

datatype attempt = NoResponse | Response nat "read_event list"

record fetch_env =
  request_fails :: bool
  attempts :: "nat \<Rightarrow> attempt"

text \<open>The constant \<open>maxRetries\<close> of package \<open>utils\<close>.\<close>

definition utils_maxRetries :: nat where
  "utils_maxRetries = 3"

text \<open>
  The loop of \<open>DoRequestWithRetry\<close>, with the variables \<open>retryCount\<close> and \<open>err\<close>; it
  returns the pair of the response and the error as the source does.
\<close>

function DoRequestWithRetry_loop ::
  "(nat \<Rightarrow> attempt) \<Rightarrow> nat \<Rightarrow> error option
     \<Rightarrow> (nat \<times> read_event list) option \<times> error option" where
  "DoRequestWithRetry_loop att retryCount err =
     (if retryCount < utils_maxRetries then
        (case att retryCount of
           NoResponse \<Rightarrow> DoRequestWithRetry_loop att (retryCount + 1) (Some NetError)
         | Response code body \<Rightarrow>
             if code = 200 \<or> code = 206 then (Some (code, body), None)
             else DoRequestWithRetry_loop att (retryCount + 1) (Some (UnexpectedStatus code)))
      else (None, err))"
  by pat_completeness auto
termination
  by (relation "measure (\<lambda>(att, retryCount, err). utils_maxRetries - retryCount)") auto

definition DoRequestWithRetry ::
  "(nat \<Rightarrow> attempt) \<Rightarrow> (nat \<times> read_event list) option \<times> error option" where
  "DoRequestWithRetry att = DoRequestWithRetry_loop att 0 None"

text \<open>
  The reading loop of \<open>downloadChunk\<close>: every non-empty read is written to the file and
  reported to the chunk before the error of the read is looked at.
\<close>

fun read_loop ::
  "read_event list \<Rightarrow> string \<Rightarrow> Chunk \<Rightarrow> filesystem \<Rightarrow> error option \<times> Chunk \<times> filesystem" where
  "read_loop [] file c fs = (None, c, fs)"
| "read_loop ((bytes, write_ok, st) # body) file c fs =
     (if bytes \<noteq> [] \<and> \<not> write_ok then (Some (WriteFailed (SysError file)), c, fs)
      else
        let c1 = (if bytes \<noteq> [] then UpdateProgress (of_nat (length bytes)) c else c);
            fs1 = (if bytes \<noteq> [] then file_Write file bytes fs else fs)
        in case st of
             More \<Rightarrow> read_loop body file c1 fs1
           | EOF \<Rightarrow> (None, c1, fs1)
           | Broken \<Rightarrow> (Some (ReadFailed NetError), c1, fs1))"

definition downloadChunk ::
  "fetch_env \<Rightarrow> Chunk \<Rightarrow> filesystem \<Rightarrow> error option \<times> Chunk \<times> filesystem" where
  "downloadChunk env c fs =
     (case os_Create (TempFile c) fs of
        (Inl e, fs1) \<Rightarrow> (Some (CreateTempFailed e), c, fs1)
      | (Inr file, fs1) \<Rightarrow>
          if request_fails env then (Some (CreateRequestFailed NetError), c, fs1)
          else
            (case DoRequestWithRetry (attempts env) of
               (resp, Some e) \<Rightarrow> (Some (SendRequestFailed e), c, fs1)
             | (None, None) \<Rightarrow> (Some NilResponse, c, fs1)
             | (Some (code, body), None) \<Rightarrow>
                 if code \<noteq> 206 \<and> code \<noteq> 200 then (Some (UnexpectedStatus code), c, fs1)
                 else read_loop body file c fs1))"

section \<open>The worker pool\<close>

text \<open>
  The pool works on pointers to chunks: an address, and a heap that gives the chunk at
  each address. A \<open>Result\<close> holds the pointer it was made for.
\<close>

type_synonym addr = nat

record Result =
  Chunk :: addr
  Error :: "error option"

text \<open>
  The body of the loop of \<open>Worker.Start\<close> between taking a chunk from the queue and
  sending its result: the fetch, and \<open>MarkFailed\<close> when it returned an error. The fetch
  of one chunk is taken as one step of the worker that owns the chunk.
\<close>

definition process_chunk ::
  "fetch_env \<Rightarrow> addr \<Rightarrow> (addr \<Rightarrow> Chunk) \<Rightarrow> filesystem
     \<Rightarrow> Result \<times> (addr \<Rightarrow> Chunk) \<times> filesystem" where
  "process_chunk env chunk h fs =
     (case downloadChunk env (h chunk) fs of
        (err, c1, fs1) \<Rightarrow>
          (\<lparr>Chunk = chunk, Error = err\<rparr>,
           h(chunk := (if err \<noteq> None then MarkFailed c1 else c1)),
           fs1))"

text \<open>
  \<open>StartWorkerPool\<close> runs several goroutines. Each has a program counter:
  \<^item> the caller: starting worker \<open>i\<close> (\<open>MSpawn i\<close>); in the loop over the chunks, before
    \<open>wg.Add(1)\<close> (\<open>MAdd\<close>) and before the send to \<open>jobQueue\<close> (\<open>MSend\<close>), with the chunks
    still to be queued; before \<open>close(jobQueue)\<close> (\<open>MClose\<close>); before starting the
    goroutine that waits (\<open>MGoWait\<close>); in the loop over \<open>results\<close> (\<open>MCollect\<close>); returned;
  \<^item> a worker: at the head of its loop over \<open>JobQueue\<close> (\<open>WRecv\<close>), holding a chunk to
    fetch (\<open>WFetch\<close>), holding a result to send (\<open>WSend\<close>), before \<open>WaitGroup.Done\<close>
    (\<open>WDone\<close>), or past its loop (\<open>WExit\<close>);
  \<^item> the waiting goroutine: not started, in \<open>wg.Wait()\<close>, before \<open>close(results)\<close>, or
    finished.
  The state holds the two channels (their buffers, of capacity \<open>len(chunks)\<close>, and whether
  they are closed), the counter of the wait group, the slice \<open>downloadResults\<close>, the heap
  and the file system.
\<close>

datatype main_pc = MSpawn nat | MAdd "addr list" | MSend "addr list"
  | MClose | MGoWait | MCollect | MReturned

datatype worker_pc = WRecv | WFetch addr | WSend Result | WDone | WExit

datatype waiter_pc = WtIdle | WtWait | WtClose | WtExit

record pool =
  arg_numWorkers :: go_int
  arg_chunks :: "addr list"
  pc_main :: main_pc
  pc_workers :: "worker_pc list"
  pc_waiter :: waiter_pc
  jobQueue :: "addr list"
  jobQueue_closed :: bool
  results :: "Result list"
  results_closed :: bool
  wg :: int
  downloadResults :: "Result list"
  heap :: "addr \<Rightarrow> Chunk"
  disk :: filesystem

definition pool_init :: "go_int \<Rightarrow> addr list \<Rightarrow> (addr \<Rightarrow> Chunk) \<Rightarrow> filesystem \<Rightarrow> pool" where
  "pool_init numWorkers chunks h fs =
     \<lparr> arg_numWorkers = numWorkers, arg_chunks = chunks, pc_main = MSpawn 0,
       pc_workers = [], pc_waiter = WtIdle, jobQueue = [], jobQueue_closed = False,
       results = [], results_closed = False, wg = 0, downloadResults = [],
       heap = h, disk = fs \<rparr>"

text \<open>
  One step of one goroutine. A send needs room in the buffer, a receive needs an element,
  a loop over a channel ends when the channel is closed and empty, \<open>wg.Wait()\<close> returns
  when the counter is zero, and \<open>Done\<close> needs a positive counter. Which goroutine moves
  next, and what the network does in a fetch, is not determined.
\<close>

inductive pool_step :: "pool \<Rightarrow> pool \<Rightarrow> bool" where
  main_spawn:
    "pc_main s = MSpawn i \<Longrightarrow> int i < sint (arg_numWorkers s) \<Longrightarrow>
     pool_step s (s\<lparr>pc_workers := pc_workers s @ [WRecv], pc_main := MSpawn (Suc i)\<rparr>)"
| main_spawned:
    "pc_main s = MSpawn i \<Longrightarrow> \<not> int i < sint (arg_numWorkers s) \<Longrightarrow>
     pool_step s (s\<lparr>pc_main := MAdd (arg_chunks s)\<rparr>)"
| main_add:
    "pc_main s = MAdd (chunk # rest) \<Longrightarrow>
     pool_step s (s\<lparr>wg := wg s + 1, pc_main := MSend (chunk # rest)\<rparr>)"
| main_send:
    "pc_main s = MSend (chunk # rest) \<Longrightarrow> length (jobQueue s) < length (arg_chunks s) \<Longrightarrow>
     pool_step s (s\<lparr>jobQueue := jobQueue s @ [chunk], pc_main := MAdd rest\<rparr>)"
| main_queued:
    "pc_main s = MAdd [] \<Longrightarrow> pool_step s (s\<lparr>pc_main := MClose\<rparr>)"
| main_close:
    "pc_main s = MClose \<Longrightarrow>
     pool_step s (s\<lparr>jobQueue_closed := True, pc_main := MGoWait\<rparr>)"
| main_go:
    "pc_main s = MGoWait \<Longrightarrow>
     pool_step s (s\<lparr>pc_waiter := WtWait, pc_main := MCollect\<rparr>)"
| main_collect:
    "pc_main s = MCollect \<Longrightarrow> results s = r # rs \<Longrightarrow>
     pool_step s (s\<lparr>results := rs, downloadResults := downloadResults s @ [r]\<rparr>)"
| main_return:
    "pc_main s = MCollect \<Longrightarrow> results s = [] \<Longrightarrow> results_closed s \<Longrightarrow>
     pool_step s (s\<lparr>pc_main := MReturned\<rparr>)"
| worker_recv:
    "w < length (pc_workers s) \<Longrightarrow> pc_workers s ! w = WRecv \<Longrightarrow> jobQueue s = chunk # rest \<Longrightarrow>
     pool_step s (s\<lparr>jobQueue := rest, pc_workers := (pc_workers s)[w := WFetch chunk]\<rparr>)"
| worker_exit:
    "w < length (pc_workers s) \<Longrightarrow> pc_workers s ! w = WRecv \<Longrightarrow> jobQueue s = [] \<Longrightarrow>
     jobQueue_closed s \<Longrightarrow>
     pool_step s (s\<lparr>pc_workers := (pc_workers s)[w := WExit]\<rparr>)"
| worker_fetch:
    "w < length (pc_workers s) \<Longrightarrow> pc_workers s ! w = WFetch chunk \<Longrightarrow>
     process_chunk env chunk (heap s) (disk s) = (r, h1, fs1) \<Longrightarrow>
     pool_step s (s\<lparr>heap := h1, disk := fs1, pc_workers := (pc_workers s)[w := WSend r]\<rparr>)"
| worker_send:
    "w < length (pc_workers s) \<Longrightarrow> pc_workers s ! w = WSend r \<Longrightarrow>
     length (results s) < length (arg_chunks s) \<Longrightarrow>
     pool_step s (s\<lparr>results := results s @ [r], pc_workers := (pc_workers s)[w := WDone]\<rparr>)"
| worker_done:
    "w < length (pc_workers s) \<Longrightarrow> pc_workers s ! w = WDone \<Longrightarrow> 0 < wg s \<Longrightarrow>
     pool_step s (s\<lparr>wg := wg s - 1, pc_workers := (pc_workers s)[w := WRecv]\<rparr>)"
| waiter_wait:
    "pc_waiter s = WtWait \<Longrightarrow> wg s = 0 \<Longrightarrow> pool_step s (s\<lparr>pc_waiter := WtClose\<rparr>)"
| waiter_close:
    "pc_waiter s = WtClose \<Longrightarrow>
     pool_step s (s\<lparr>results_closed := True, pc_waiter := WtExit\<rparr>)"

text \<open>
  \<open>StartWorkerPool\<close> returns when its own goroutine has left the collecting loop; it
  returns the collected results and a \<open>nil\<close> error.
\<close>

inductive StartWorkerPool ::
  "go_int \<Rightarrow> addr list \<Rightarrow> (addr \<Rightarrow> Chunk) \<Rightarrow> filesystem
     \<Rightarrow> (Result list \<times> error option) \<times> (addr \<Rightarrow> Chunk) \<times> filesystem \<Rightarrow> bool" where
  returns:
    "pool_step\<^sup>*\<^sup>* (pool_init numWorkers chunks h fs) s \<Longrightarrow> pc_main s = MReturned \<Longrightarrow>
     StartWorkerPool numWorkers chunks h fs ((downloadResults s, None), heap s, disk s)"

section \<open>Retrying failed chunks\<close>

text \<open>
  The first loop of \<open>RetryFailedChunks\<close>, which resets the chunks to retry and collects
  them in \<open>failedChunks\<close>; the loop over the results, which returns the first error; and
  the function itself, which returns at once when nothing was selected and otherwise
  runs the pool with \<open>len(failedChunks)\<close> workers.
\<close>

fun retry_select ::
  "go_int \<Rightarrow> addr list \<Rightarrow> addr list \<Rightarrow> (addr \<Rightarrow> Chunk) \<Rightarrow> filesystem
     \<Rightarrow> addr list \<times> (addr \<Rightarrow> Chunk) \<times> filesystem" where
  "retry_select maxRetries [] failedChunks h fs = (failedChunks, h, fs)"
| "retry_select maxRetries (chunk # chunks) failedChunks h fs =
     (if Failed (h chunk) \<and> RetryCount (h chunk) <s maxRetries then
        (case ResetForRetry fs (h chunk) of
           (fs1, c1) \<Rightarrow>
             retry_select maxRetries chunks (failedChunks @ [chunk]) (h(chunk := c1)) fs1)
      else retry_select maxRetries chunks failedChunks h fs)"



section \<open>Bookkeeping for the worker pool\<close>

text \<open>
  For the proofs about the pool: the chunk a worker holds, whether a worker counts in the
  wait group, whether it has left its loop; a rank for each program counter, which add
  up to a measure of the work left (every step lowers it); the chunks the caller has
  still to queue; and the invariant that ties the counter of the wait group, the two
  channels and the program counters together.
\<close>

fun busy :: "worker_pc \<Rightarrow> nat" where
  "busy (WFetch chunk) = 1"
| "busy (WSend r) = 1"
| "busy WDone = 1"
| "busy WRecv = 0"
| "busy WExit = 0"

fun held :: "worker_pc \<Rightarrow> addr multiset" where
  "held (WFetch chunk) = {#chunk#}"
| "held (WSend r) = {#Chunk r#}"
| "held WDone = {#}"
| "held WRecv = {#}"
| "held WExit = {#}"

fun exited :: "worker_pc \<Rightarrow> nat" where
  "exited WExit = 1"
| "exited (WFetch chunk) = 0"
| "exited (WSend r) = 0"
| "exited WDone = 0"
| "exited WRecv = 0"

fun worker_rank :: "worker_pc \<Rightarrow> nat" where
  "worker_rank (WFetch chunk) = 5"
| "worker_rank (WSend r) = 4"
| "worker_rank WDone = 2"
| "worker_rank WRecv = 1"
| "worker_rank WExit = 0"

fun waiter_rank :: "waiter_pc \<Rightarrow> nat" where
  "waiter_rank WtIdle = 2"
| "waiter_rank WtWait = 2"
| "waiter_rank WtClose = 1"
| "waiter_rank WtExit = 0"

fun main_rank :: "go_int \<Rightarrow> nat \<Rightarrow> main_pc \<Rightarrow> nat" where
  "main_rank n len (MSpawn i) = 2 * (nat (sint n) - i) + 8 * len + 7"
| "main_rank n len (MAdd rest) = 8 * length rest + 6"
| "main_rank n len (MSend rest) = 8 * length rest + 5"
| "main_rank n len MClose = 5"
| "main_rank n len MGoWait = 4"
| "main_rank n len MCollect = 1"
| "main_rank n len MReturned = 0"

definition pool_measure :: "pool \<Rightarrow> nat" where
  "pool_measure s =
     main_rank (arg_numWorkers s) (length (arg_chunks s)) (pc_main s)
     + 6 * length (jobQueue s)
     + sum_list (map worker_rank (pc_workers s))
     + length (results s)
     + waiter_rank (pc_waiter s)"

fun pending :: "addr list \<Rightarrow> main_pc \<Rightarrow> addr list" where
  "pending chunks (MSpawn i) = chunks"
| "pending chunks (MAdd rest) = rest"
| "pending chunks (MSend rest) = rest"
| "pending chunks MClose = []"
| "pending chunks MGoWait = []"
| "pending chunks MCollect = []"
| "pending chunks MReturned = []"

fun adding :: "main_pc \<Rightarrow> nat" where
  "adding (MSend rest) = 1"
| "adding (MSpawn i) = 0"
| "adding (MAdd rest) = 0"
| "adding MClose = 0"
| "adding MGoWait = 0"
| "adding MCollect = 0"
| "adding MReturned = 0"

definition started :: "pool \<Rightarrow> bool" where
  "started s \<longleftrightarrow> int (length (pc_workers s)) = max 0 (sint (arg_numWorkers s))"

definition unclosed :: "pool \<Rightarrow> bool" where
  "unclosed s \<longleftrightarrow> \<not> jobQueue_closed s \<and> pc_waiter s = WtIdle"

fun phase_inv :: "pool \<Rightarrow> main_pc \<Rightarrow> bool" where
  "phase_inv s (MSpawn i) \<longleftrightarrow>
     length (pc_workers s) = i \<and> int i \<le> max 0 (sint (arg_numWorkers s)) \<and> unclosed s"
| "phase_inv s (MAdd rest) \<longleftrightarrow> started s \<and> unclosed s"
| "phase_inv s (MSend rest) \<longleftrightarrow> rest \<noteq> [] \<and> started s \<and> unclosed s"
| "phase_inv s MClose \<longleftrightarrow> started s \<and> unclosed s"
| "phase_inv s MGoWait \<longleftrightarrow> started s \<and> jobQueue_closed s \<and> pc_waiter s = WtIdle"
| "phase_inv s MCollect \<longleftrightarrow> started s \<and> jobQueue_closed s \<and> pc_waiter s \<noteq> WtIdle"
| "phase_inv s MReturned \<longleftrightarrow>
     started s \<and> jobQueue_closed s \<and> results s = [] \<and> results_closed s"

definition pool_inv :: "pool \<Rightarrow> bool" where
  "pool_inv s \<longleftrightarrow>
     mset (arg_chunks s)
       = mset (pending (arg_chunks s) (pc_main s)) + mset (jobQueue s)
         + sum_list (map held (pc_workers s))
         + mset (map Chunk (results s)) + mset (map Chunk (downloadResults s))
     \<and> wg s = int (length (jobQueue s) + sum_list (map busy (pc_workers s)) + adding (pc_main s))
     \<and> phase_inv s (pc_main s)
     \<and> (pc_waiter s = WtClose \<or> pc_waiter s = WtExit \<longrightarrow> wg s = 0)
     \<and> (results_closed s \<longleftrightarrow> pc_waiter s = WtExit)
     \<and> (0 < sum_list (map exited (pc_workers s)) \<longrightarrow> jobQueue s = [] \<and> jobQueue_closed s)"


section \<open>Auxiliary notions for the statements\<close>

text \<open>
  The relation between \<open>Completed\<close> and the byte count that the data model states for a
  chunk.
\<close>

definition chunk_inv :: "Chunk \<Rightarrow> bool" where
  "chunk_inv c \<longleftrightarrow> (Completed c \<longleftrightarrow> Size c \<le>s Downloaded c)"

text \<open>
  Example states: a file system with no file where nothing fails; two file systems where
  the files of chunk 0 (two bytes) and chunk 1 (three bytes) were written in either
  order; and heaps, where the chunk at address \<open>p\<close> is the ten bytes from \<open>10 * p\<close> on.
\<close>

definition empty_fs :: filesystem where
  "empty_fs = \<lparr> files = Map.empty, mkdir_fails = (\<lambda>p. False), create_fails = (\<lambda>p. False),
       open_fails = (\<lambda>p. False), copy_fails = (\<lambda>p. None) \<rparr>"

definition chunk0_first :: filesystem where
  "chunk0_first = file_Write ''/tmp/chunk_1'' [3, 4, 5] (file_Write ''/tmp/chunk_0'' [1, 2] empty_fs)"

definition chunk1_first :: filesystem where
  "chunk1_first = file_Write ''/tmp/chunk_0'' [1, 2] (file_Write ''/tmp/chunk_1'' [3, 4, 5] empty_fs)"

definition fresh_heap :: "addr \<Rightarrow> Chunk" where
  "fresh_heap p = NewChunk (of_nat p) ''u'' (of_nat (10 * p)) (of_nat (10 * p + 9)) ''/tmp''"


text \<open>
  A run of the program on the chunk at address 0. The server answers the first fetch
  with the ten bytes of the chunk in one read that also reports an error other than
  \<open>io.EOF\<close>; the worker handles it (\<open>first_attempt\<close>). The retry pass selects and resets
  the chunk (\<open>reset_pass\<close>). The server answers the second fetch with three bytes and
  the end of the body; the worker handles it (\<open>second_attempt\<close>).
\<close>

definition ten_bytes_then_broken :: fetch_env where
  "ten_bytes_then_broken =
     \<lparr> request_fails = False,
       attempts = (\<lambda>k. Response 206 [(replicate 10 0, True, Broken)]) \<rparr>"

definition three_bytes_then_eof :: fetch_env where
  "three_bytes_then_eof =
     \<lparr> request_fails = False,
       attempts = (\<lambda>k. Response 206 [(replicate 3 0, True, EOF)]) \<rparr>"

definition first_attempt :: "Result \<times> (addr \<Rightarrow> Chunk) \<times> filesystem" where
  "first_attempt = process_chunk ten_bytes_then_broken 0 fresh_heap empty_fs"

definition reset_pass :: "addr list \<times> (addr \<Rightarrow> Chunk) \<times> filesystem" where
  "reset_pass = retry_select 3 [0] [] (fst (snd first_attempt)) (snd (snd first_attempt))"

definition second_attempt :: "Result \<times> (addr \<Rightarrow> Chunk) \<times> filesystem" where
  "second_attempt =
     process_chunk three_bytes_then_eof 0 (fst (snd reset_pass)) (snd (snd reset_pass))"

section \<open>Facts about 64-bit integers\<close>

lemma sint64_bounds:
  fixes a :: "64 word"
  shows "- (2 ^ 63) \<le> sint a" "sint a < 2 ^ 63"
  using sint_ge [of a] sint_lt [of a] by simp_all

lemma sint_add_no_wrap:
  fixes a b :: "64 word"
  assumes "- (2 ^ 63) \<le> sint a + sint b" "sint a + sint b < 2 ^ 63"
  shows "sint (a + b) = sint a + sint b"
proof -
  have "sint (a + b) = signed_take_bit 63 (sint a + sint b)"
    by (simp add: sint_word_ariths)
  also have "\<dots> = sint a + sint b"
    using assms by (intro signed_take_bit_int_eq_self) simp_all
  finally show ?thesis .
qed

lemma sint_sub_no_wrap:
  fixes a b :: "64 word"
  assumes "- (2 ^ 63) \<le> sint a - sint b" "sint a - sint b < 2 ^ 63"
  shows "sint (a - b) = sint a - sint b"
proof -
  have "sint (a - b) = signed_take_bit 63 (sint a - sint b)"
    by (simp add: sint_word_ariths)
  also have "\<dots> = sint a - sint b"
    using assms by (intro signed_take_bit_int_eq_self) simp_all
  finally show ?thesis .
qed

lemma sint_word_of_int64:
  assumes "- (2 ^ 63) \<le> k" "k < 2 ^ 63"
  shows "sint (word_of_int k :: 64 word) = k"
proof -
  have "sint (word_of_int k :: 64 word) = signed_take_bit 63 k"
    by (simp only: sint_sbintrunc') simp
  also have "\<dots> = k"
    using assms by (intro signed_take_bit_int_eq_self) simp_all
  finally show ?thesis .
qed

lemma sint_of_nat64:
  "k < 2 ^ 63 \<Longrightarrow> sint (of_nat k :: 64 word) = int k"
proof -
  assume "k < 2 ^ 63"
  then have "int k < 2 ^ 63" by simp
  then have "signed_take_bit 63 (int k) = int k"
    by (intro signed_take_bit_int_eq_self) simp_all
  then show ?thesis by (simp add: signed_of_nat)
qed

lemma int64_div_pos:
  assumes "0 < sint a" "0 < sint b"
  shows "sint (int64_div a b) = sint a div sint b"
proof -
  have q: "sint a sdiv sint b = sint a div sint b"
    using assms by (simp add: signed_divide_int_def)
  have "0 \<le> sint a div sint b" using assms by (simp add: pos_imp_zdiv_nonneg_iff)
  moreover have "sint a div sint b \<le> sint a"
    using zdiv_mono2 [of "sint a" 1 "sint b"] assms by simp
  ultimately have "sint (word_of_int (sint a div sint b) :: 64 word) = sint a div sint b"
    using sint64_bounds [of a] by (intro sint_word_of_int64) linarith+
  then show ?thesis by (simp add: int64_div_def q)
qed

section \<open>Chunk state\<close>

lemma ValidateChunks_iff:
  "ValidateChunks chunks \<longleftrightarrow> (\<forall>c \<in> set chunks. Completed c \<and> \<not> Failed c)"
  by (induction chunks) auto

lemma NewChunk_inv:
  assumes "start \<le>s end'" "sint end' - sint start + 1 < 2 ^ 63"
  shows "sint (Size (NewChunk cid url start end' tempDir)) = sint end' - sint start + 1"
    and "chunk_inv (NewChunk cid url start end' tempDir)"
proof -
  have le: "sint start \<le> sint end'" using assms(1) by (simp add: word_sle_eq)
  have d: "sint (end' - start) = sint end' - sint start"
    using le assms(2) sint64_bounds [of start] sint64_bounds [of end']
    by (intro sint_sub_no_wrap) linarith+
  have "sint (end' - start + 1) = sint (end' - start) + sint (1 :: 64 word)"
    using d le assms(2) by (intro sint_add_no_wrap) simp_all
  then show s: "sint (Size (NewChunk cid url start end' tempDir)) = sint end' - sint start + 1"
    using d by (simp add: NewChunk_def)
  show "chunk_inv (NewChunk cid url start end' tempDir)"
    using s le by (simp add: chunk_inv_def word_sle_eq) (simp add: NewChunk_def)
qed

lemma UpdateProgress_inv:
  assumes "chunk_inv c" "0 \<le>s b" "sint (Downloaded c) + sint b < 2 ^ 63"
  shows "chunk_inv (UpdateProgress b c)"
proof -
  have b0: "0 \<le> sint b" using assms(2) by (simp add: word_sle_eq)
  have "sint (Downloaded c + b) = sint (Downloaded c) + sint b"
    using b0 assms(3) sint64_bounds [of "Downloaded c"]
    by (intro sint_add_no_wrap) linarith+
  then show ?thesis
    using assms(1) b0
    by (auto simp: chunk_inv_def UpdateProgress_def Let_def word_sle_eq)
qed

lemma MarkFailed_inv: "chunk_inv c \<Longrightarrow> chunk_inv (MarkFailed c)"
  by (simp add: chunk_inv_def MarkFailed_def)

(* C4 *)

lemma fold_UpdateProgress_Size [simp]:
  "Size (fold UpdateProgress bs c) = Size c"
  by (induction bs arbitrary: c) (simp_all add: UpdateProgress_def Let_def)

lemma fold_UpdateProgress_Downloaded:
  "Downloaded (fold UpdateProgress bs c) = Downloaded c + sum_list bs"
  by (induction bs arbitrary: c) (simp_all add: UpdateProgress_def Let_def add.assoc)

lemma sum_list_sint_nonneg:
  "\<forall>b \<in> set bs. 0 \<le>s b \<Longrightarrow> 0 \<le> (\<Sum>b\<leftarrow>bs. sint b)"
  by (induction bs) (auto simp: word_sle_eq)

lemma fold_UpdateProgress_exact:
  assumes "\<forall>b \<in> set bs. 0 \<le>s b" "sint (Downloaded c) + (\<Sum>b\<leftarrow>bs. sint b) < 2 ^ 63"
  shows "sint (Downloaded (fold UpdateProgress bs c)) = sint (Downloaded c) + (\<Sum>b\<leftarrow>bs. sint b)
    \<and> (Completed (fold UpdateProgress bs c) \<longleftrightarrow>
         Completed c \<or> (bs \<noteq> [] \<and> sint (Size c) \<le> sint (Downloaded c) + (\<Sum>b\<leftarrow>bs. sint b)))"
  using assms
proof (induction bs arbitrary: c)
  case Nil
  then show ?case by simp
next
  case (Cons b bs)
  have b0: "0 \<le> sint b" using Cons.prems(1) by (simp add: word_sle_eq)
  have rest: "0 \<le> (\<Sum>b\<leftarrow>bs. sint b)"
    using Cons.prems(1) by (intro sum_list_sint_nonneg) simp
  have tot: "sint (Downloaded c) + sint b + (\<Sum>b\<leftarrow>bs. sint b) < 2 ^ 63"
    using Cons.prems(2) by simp
  have step: "sint (Downloaded c + b) = sint (Downloaded c) + sint b"
    using b0 rest tot sint64_bounds [of "Downloaded c"]
    by (intro sint_add_no_wrap) linarith+
  let ?c = "UpdateProgress b c"
  have D: "sint (Downloaded ?c) = sint (Downloaded c) + sint b"
    using step by (simp add: UpdateProgress_def Let_def)
  have S: "Size ?c = Size c" by (simp add: UpdateProgress_def Let_def)
  have C: "Completed ?c \<longleftrightarrow> Completed c \<or> sint (Size c) \<le> sint (Downloaded c) + sint b"
    using step by (auto simp: UpdateProgress_def Let_def word_sle_eq)
  have "sint (Downloaded ?c) + (\<Sum>b\<leftarrow>bs. sint b) < 2 ^ 63"
    using D Cons.prems(2) by simp
  from Cons.IH [OF _ this] Cons.prems(1)
  have IH: "sint (Downloaded (fold UpdateProgress bs ?c)) = sint (Downloaded ?c) + (\<Sum>b\<leftarrow>bs. sint b)"
    "Completed (fold UpdateProgress bs ?c) \<longleftrightarrow>
         Completed ?c \<or> (bs \<noteq> [] \<and> sint (Size ?c) \<le> sint (Downloaded ?c) + (\<Sum>b\<leftarrow>bs. sint b))"
    by simp_all
  show ?case
    using IH D S C rest by (cases "bs = []") auto
qed

lemma fold_UpdateProgress_fresh:
  assumes "\<forall>b \<in> set bs. 0 \<le>s b"
  shows "Downloaded (fold UpdateProgress bs (NewChunk cid url start end' tempDir)) = sum_list bs"
    and "sint (Downloaded (fold UpdateProgress bs (NewChunk cid url start end' tempDir))) \<le> (\<Sum>b\<leftarrow>bs. sint b)"
    and "(\<Sum>b\<leftarrow>bs. sint b) < 2 ^ 63 \<Longrightarrow>
          sint (Downloaded (fold UpdateProgress bs (NewChunk cid url start end' tempDir))) = (\<Sum>b\<leftarrow>bs. sint b)"
    and "(\<Sum>b\<leftarrow>bs. sint b) = sint (Size (NewChunk cid url start end' tempDir)) \<Longrightarrow>
          bs \<noteq> [] \<or> Size (NewChunk cid url start end' tempDir) \<noteq> 0 \<Longrightarrow>
          Completed (fold UpdateProgress bs (NewChunk cid url start end' tempDir))"
    and "(\<Sum>b\<leftarrow>bs. sint b) < sint (Size (NewChunk cid url start end' tempDir)) \<Longrightarrow>
          \<not> Completed (fold UpdateProgress bs (NewChunk cid url start end' tempDir))"
proof -
  let ?c = "NewChunk cid url start end' tempDir"
  have fresh: "Downloaded ?c = 0" "\<not> Completed ?c" by (simp_all add: NewChunk_def)
  show "Downloaded (fold UpdateProgress bs ?c) = sum_list bs"
    by (simp add: fold_UpdateProgress_Downloaded fresh)
  have ex: "sint (Downloaded (fold UpdateProgress bs ?c)) = (\<Sum>b\<leftarrow>bs. sint b)
      \<and> (Completed (fold UpdateProgress bs ?c) \<longleftrightarrow> bs \<noteq> [] \<and> sint (Size ?c) \<le> (\<Sum>b\<leftarrow>bs. sint b))"
    if "(\<Sum>b\<leftarrow>bs. sint b) < 2 ^ 63"
    using fold_UpdateProgress_exact [OF assms, of ?c] that fresh by simp
  show "sint (Downloaded (fold UpdateProgress bs ?c)) \<le> (\<Sum>b\<leftarrow>bs. sint b)"
  proof (cases "(\<Sum>b\<leftarrow>bs. sint b) < 2 ^ 63")
    case True
    then show ?thesis using ex by simp
  next
    case False
    then show ?thesis
      using sint64_bounds(2) [of "Downloaded (fold UpdateProgress bs ?c)"] by linarith
  qed
  show "sint (Downloaded (fold UpdateProgress bs ?c)) = (\<Sum>b\<leftarrow>bs. sint b)"
    if "(\<Sum>b\<leftarrow>bs. sint b) < 2 ^ 63"
    using ex that by simp
  show "Completed (fold UpdateProgress bs ?c)"
    if "(\<Sum>b\<leftarrow>bs. sint b) = sint (Size ?c)" "bs \<noteq> [] \<or> Size ?c \<noteq> 0"
  proof -
    have "(\<Sum>b\<leftarrow>bs. sint b) < 2 ^ 63"
      using that(1) sint64_bounds(2) [of "Size ?c"] by simp
    moreover have "bs \<noteq> []"
    proof
      assume "bs = []"
      then have "sint (Size ?c) = 0" using that(1) by simp
      then have "Size ?c = 0" by (simp only: signed_eq_0_iff)
      then show False using that(2) \<open>bs = []\<close> by simp
    qed
    ultimately show ?thesis using ex that(1) by simp
  qed
  show "\<not> Completed (fold UpdateProgress bs ?c)"
    if "(\<Sum>b\<leftarrow>bs. sint b) < sint (Size ?c)"
  proof -
    have "(\<Sum>b\<leftarrow>bs. sint b) < 2 ^ 63"
      using that sint64_bounds(2) [of "Size ?c"] by linarith
    then show ?thesis using ex that by simp
  qed
qed

section \<open>The plan of chunks\<close>

lemma chunks_loop_map:
  fixes fileSize n chunkSize :: "64 word"
  assumes N: "1 \<le> sint n" and k: "k \<le> nat (sint n)"
  shows "chunks_loop url fileSize n chunkSize tempDir (of_nat k)
       = map (\<lambda>j. NewChunk (of_nat j) url (of_nat j * chunkSize)
                  (if j = nat (sint n) - 1 then fileSize - 1
                   else of_nat j * chunkSize + chunkSize - 1) tempDir)
             [k ..< nat (sint n)]"
  using k
proof (induction "nat (sint n) - k" arbitrary: k)
  case 0
  then have keq: "k = nat (sint n)" by simp
  then have "of_nat k = n" using N by simp
  then have "\<not> (of_nat k <s n)" by simp
  then show ?case
    using keq by (subst chunks_loop.simps) simp
next
  case (Suc d)
  then have klt: "k < nat (sint n)" by simp
  have nb: "nat (sint n) < 2 ^ 63"
    using sint64_bounds(2) [of n] N by (simp add: nat_less_iff)
  have sk: "sint (of_nat k :: 64 word) = int k"
    using klt nb by (intro sint_of_nat64) simp
  have lt: "(of_nat k :: 64 word) <s n"
    using klt sk by (simp add: word_sless_alt)
  have "sint (n - 1) = sint n - sint (1 :: 64 word)"
    using N sint64_bounds [of n] by (intro sint_sub_no_wrap) simp_all
  then have sn1: "sint (n - 1) = sint n - 1" by simp
  have last_iff: "(of_nat k :: 64 word) = n - 1 \<longleftrightarrow> k = nat (sint n) - 1"
  proof
    assume "(of_nat k :: 64 word) = n - 1"
    then have "sint (of_nat k :: 64 word) = sint (n - 1)" by simp
    then show "k = nat (sint n) - 1" using sk sn1 by simp
  next
    assume "k = nat (sint n) - 1"
    then have "int k = sint n - 1" using N by simp
    then have "sint (of_nat k :: 64 word) = sint (n - 1)" using sk sn1 by simp
    then show "(of_nat k :: 64 word) = n - 1" by (rule signed_word_eqI)
  qed
  have IH: "chunks_loop url fileSize n chunkSize tempDir (of_nat (Suc k))
       = map (\<lambda>j. NewChunk (of_nat j) url (of_nat j * chunkSize)
                  (if j = nat (sint n) - 1 then fileSize - 1
                   else of_nat j * chunkSize + chunkSize - 1) tempDir)
             [Suc k ..< nat (sint n)]"
    using Suc.hyps(1) [of "Suc k"] Suc.hyps(2) klt by simp
  have split: "[k ..< nat (sint n)] = k # [Suc k ..< nat (sint n)]"
    using klt by (simp add: upt_conv_Cons)
  show ?case
    apply (subst chunks_loop.simps)
    apply (simp only: lt if_True Let_def last_iff split list.map)
    using IH apply (simp add: add.commute)
    done
qed

lemma concat_upto_blocks:
  fixes q F :: int
  assumes "0 < q" "int N * q \<le> F" "k < N"
  shows "concat (map (\<lambda>j. [int j * q .. (if j = N - 1 then F - 1 else int j * q + q - 1)]) [k..<N])
       = [int k * q .. F - 1]"
  using assms(3)
proof (induction "N - k" arbitrary: k)
  case 0
  then show ?case by simp
next
  case (Suc d)
  show ?case
  proof (cases "k = N - 1")
    case True
    then have "[k..<N] = [k]" using Suc.prems by (simp add: upt_conv_Cons)
    then show ?thesis using True by simp
  next
    case False
    then have lt: "Suc k < N" using Suc.prems by simp
    have IH: "concat (map (\<lambda>j. [int j * q .. (if j = N - 1 then F - 1 else int j * q + q - 1)]) [Suc k..<N])
       = [int (Suc k) * q .. F - 1]"
      using Suc.hyps(1) [of "Suc k"] Suc.hyps(2) lt by simp
    have "int (Suc k) * q \<le> int N * q"
      using lt assms(1) by (intro mult_right_mono) simp_all
    then have up: "int k * q + q \<le> F" using assms(2) by (simp add: algebra_simps)
    have "[int k * q .. F - 1] = [int k * q .. int k * q + q - 1] @ [int k * q + q - 1 + 1 .. F - 1]"
      using assms(1) up by (intro upto_split2) simp_all
    then have sp: "[int k * q .. F - 1] = [int k * q .. int k * q + q - 1] @ [int (Suc k) * q .. F - 1]"
      by (simp add: algebra_simps)
    have "[k..<N] = k # [Suc k..<N]" using Suc.prems by (simp add: upt_conv_Cons)
    then show ?thesis using IH sp False by simp
  qed
qed

lemma planned_chunk_fields:
  fixes fileSize n chunkSize :: "64 word" and url tempDir :: string
  assumes N: "1 \<le> sint n" "sint n \<le> sint fileSize"
    and cs: "chunkSize = int64_div fileSize n"
    and j: "j < nat (sint n)"
  defines "q \<equiv> sint fileSize div sint n"
  defines "c \<equiv> NewChunk (of_nat j) url (of_nat j * chunkSize)
                  (if j = nat (sint n) - 1 then fileSize - 1
                   else of_nat j * chunkSize + chunkSize - 1) tempDir"
  shows "sint (Start c) = int j * q"
    and "sint (End c) = (if j = nat (sint n) - 1 then sint fileSize - 1 else int j * q + q - 1)"
    and "sint (Size c) = sint (End c) - sint (Start c) + 1"
    and "1 \<le> q" and "sint n * q \<le> sint fileSize"
proof -
  have F: "0 < sint fileSize" using N by simp
  have sq: "sint chunkSize = q"
    using int64_div_pos [of fileSize n] F N by (simp add: cs q_def)
  have "chunkSize = word_of_int (sint chunkSize)" by simp
  then have wq: "chunkSize = word_of_int q" by (simp only: sq)
  show q1: "1 \<le> q"
    unfolding q_def using zdiv_mono1 [of "sint n" "sint fileSize" "sint n"] N by simp
  have "sint n * (sint fileSize div sint n) \<le> sint fileSize"
    using mult_div_mod_eq [of "sint n" "sint fileSize"] pos_mod_sign [of "sint n" "sint fileSize"] N
    by linarith
  then show Nq: "sint n * q \<le> sint fileSize" by (simp add: q_def mult.commute)
  have jn: "int j + 1 \<le> sint n" using j by simp
  have "(int j + 1) * q \<le> sint n * q"
    using jn q1 by (intro mult_right_mono) simp_all
  then have jq: "int j * q + q \<le> sint fileSize" using Nq by (simp add: algebra_simps)
  have j0: "0 \<le> int j * q" using q1 by simp
  have FB: "sint fileSize < 2 ^ 63" using sint64_bounds by simp
  have "of_nat j * chunkSize = (word_of_int (int j * q) :: 64 word)"
    by (simp add: wq)
  then have "sint (of_nat j * chunkSize) = int j * q"
    using sint_word_of_int64 [of "int j * q"] j0 jq q1 FB by simp
  then show S: "sint (Start c) = int j * q" by (simp add: c_def NewChunk_def)
  have "of_nat j * chunkSize + chunkSize - 1 = (word_of_int (int j * q + q - 1) :: 64 word)"
    by (simp add: wq)
  then have e1: "sint (of_nat j * chunkSize + chunkSize - 1) = int j * q + q - 1"
    using sint_word_of_int64 [of "int j * q + q - 1"] j0 jq q1 FB by simp
  have "fileSize - 1 = (word_of_int (sint fileSize - 1) :: 64 word)" by simp
  then have e2: "sint (fileSize - 1) = sint fileSize - 1"
    using sint_word_of_int64 [of "sint fileSize - 1"] F FB by simp
  show E: "sint (End c) = (if j = nat (sint n) - 1 then sint fileSize - 1 else int j * q + q - 1)"
    using e1 e2 by (simp add: c_def NewChunk_def)
  have "Size c = End c - Start c + 1" by (simp add: c_def NewChunk_def)
  also have "\<dots> = word_of_int (sint (End c) - sint (Start c) + 1)" by simp
  finally have "sint (Size c) = sint (word_of_int (sint (End c) - sint (Start c) + 1) :: 64 word)"
    by simp
  also have "\<dots> = sint (End c) - sint (Start c) + 1"
  proof (intro sint_word_of_int64)
    define a where "a = int j * q"
    have a: "0 \<le> a" "a + q \<le> sint fileSize" using j0 jq by (simp_all add: a_def)
    have Sa: "sint (Start c) = a" using S by (simp add: a_def)
    have Ea: "sint (End c) = sint fileSize - 1 \<or> sint (End c) = a + q - 1"
      using E by (simp add: a_def)
    show "- (2 ^ 63) \<le> sint (End c) - sint (Start c) + 1"
      using Sa Ea a q1 F by auto
    show "sint (End c) - sint (Start c) + 1 < 2 ^ 63"
      using Sa Ea a q1 F FB by auto
  qed
  finally show "sint (Size c) = sint (End c) - sint (Start c) + 1" .
qed

lemma CalculateChunks_planned:
  fixes fileSize numChunks :: "64 word"
  assumes F: "0 <s fileSize"
  defines "n \<equiv> (if fileSize <s (if numChunks \<le>s 0 then 1 else numChunks) then fileSize
                   else (if numChunks \<le>s 0 then 1 else numChunks))"
  shows "CalculateChunks url fileSize numChunks tempDir
       = Inr (map (\<lambda>j. NewChunk (of_nat j) url (of_nat j * int64_div fileSize n)
                  (if j = nat (sint n) - 1 then fileSize - 1
                   else of_nat j * int64_div fileSize n + int64_div fileSize n - 1) tempDir)
             [0 ..< nat (sint n)])"
    and "sint n = max 1 (min (sint numChunks) (sint fileSize))"
    and "1 \<le> sint n" and "sint n \<le> sint fileSize"
proof -
  have F': "0 < sint fileSize" using F by (simp add: word_sless_alt)
  show m: "sint n = max 1 (min (sint numChunks) (sint fileSize))"
    using F' by (auto simp: n_def word_sless_alt word_sle_eq)
  show N: "1 \<le> sint n" using m by simp
  show "sint n \<le> sint fileSize" using m F' by simp
  have "\<not> fileSize \<le>s 0" using F' by (simp add: word_sle_eq)
  then have "CalculateChunks url fileSize numChunks tempDir
      = Inr (chunks_loop url fileSize n (int64_div fileSize n) tempDir (of_nat 0))"
    by (simp add: CalculateChunks_def Let_def n_def)
  then show "CalculateChunks url fileSize numChunks tempDir
       = Inr (map (\<lambda>j. NewChunk (of_nat j) url (of_nat j * int64_div fileSize n)
                  (if j = nat (sint n) - 1 then fileSize - 1
                   else of_nat j * int64_div fileSize n + int64_div fileSize n - 1) tempDir)
             [0 ..< nat (sint n)])"
    using chunks_loop_map [OF N, of 0 url fileSize "int64_div fileSize n" tempDir] by simp
qed

section \<open>Merging\<close>

lemma file_contents_Write:
  "file_contents (file_Write file bytes fs) q
     = (if q = file then file_contents fs file @ bytes else file_contents fs q)"
  by (simp add: file_Write_def file_contents_def)

lemma merge_loop_concat:
  assumes "outFile \<notin> set inputPaths" and "files fs outFile \<noteq> None"
    and "\<forall>p \<in> set inputPaths. files fs p \<noteq> None \<and> \<not> open_fails fs p \<and> copy_fails fs p = None"
  shows "merge_loop outFile inputPaths fs
       = (None, fs\<lparr>files := (files fs)(outFile \<mapsto>
                  file_contents fs outFile @ concat (map (file_contents fs) inputPaths))\<rparr>)"
  using assms
proof (induction inputPaths arbitrary: fs)
  case Nil
  then have "(files fs)(outFile \<mapsto> file_contents fs outFile) = files fs"
    by (auto simp: file_contents_def)
  then show ?case by simp
next
  case (Cons p ps)
  let ?fs1 = "file_Write outFile (file_contents fs p) fs"
  have ne: "p \<noteq> outFile" using Cons.prems(1) by auto
  have open_ok: "os_Open p fs = Inr p"
    using Cons.prems(3) by (simp add: os_Open_def)
  have copy_ok: "io_CopyBuffer outFile p fs = (None, ?fs1)"
    using Cons.prems(3) by (simp add: io_CopyBuffer_def)
  have same: "files ?fs1 q = files fs q" "open_fails ?fs1 q = open_fails fs q"
    "copy_fails ?fs1 q = copy_fails fs q" if "q \<noteq> outFile" for q
    using that by (simp_all add: file_Write_def)
  have pre: "\<forall>q \<in> set ps. files ?fs1 q \<noteq> None \<and> \<not> open_fails ?fs1 q \<and> copy_fails ?fs1 q = None"
  proof (intro ballI)
    fix q assume q: "q \<in> set ps"
    then have "q \<noteq> outFile" using Cons.prems(1) by auto
    then show "files ?fs1 q \<noteq> None \<and> \<not> open_fails ?fs1 q \<and> copy_fails ?fs1 q = None"
      using same [of q] Cons.prems(3) q by simp
  qed
  have cont: "map (file_contents ?fs1) ps = map (file_contents fs) ps"
    using Cons.prems(1) by (intro map_cong) (auto simp: file_contents_Write)
  have out1: "file_contents ?fs1 outFile = file_contents fs outFile @ file_contents fs p"
    by (simp add: file_contents_Write)
  have "merge_loop outFile (p # ps) fs = merge_loop outFile ps ?fs1"
    by (simp add: open_ok copy_ok)
  also have "\<dots> = (None, ?fs1\<lparr>files := (files ?fs1)(outFile \<mapsto>
                  file_contents ?fs1 outFile @ concat (map (file_contents ?fs1) ps))\<rparr>)"
  proof -
    have "outFile \<notin> set ps" using Cons.prems(1) by simp
    moreover have "files ?fs1 outFile \<noteq> None" by (simp add: file_Write_def)
    ultimately show ?thesis using pre by (rule Cons.IH)
  qed
  also have "\<dots> = (None, fs\<lparr>files := (files fs)(outFile \<mapsto>
                  file_contents fs outFile @ concat (map (file_contents fs) (p # ps)))\<rparr>)"
    by (simp add: cont out1) (simp add: file_Write_def)
  finally show ?case .
qed

lemma MergeFiles_result:
  assumes "outputPath \<notin> set inputPaths"
    and "\<not> mkdir_fails fs outputPath" and "\<not> create_fails fs outputPath"
    and "\<forall>p \<in> set inputPaths. files fs p \<noteq> None \<and> \<not> open_fails fs p \<and> copy_fails fs p = None"
  shows "MergeFiles outputPath inputPaths fs
      = (None, fs\<lparr>files := (files fs)(outputPath \<mapsto> concat (map (file_contents fs) inputPaths))\<rparr>)"
proof -
  let ?fs0 = "fs\<lparr>files := (files fs)(outputPath \<mapsto> [])\<rparr>"
  have cf: "CreateFile outputPath fs = (Inr outputPath, ?fs0)"
    using assms(2,3) by (simp add: CreateFile_def os_Create_def)
  have pre: "\<forall>p \<in> set inputPaths. files ?fs0 p \<noteq> None \<and> \<not> open_fails ?fs0 p \<and> copy_fails ?fs0 p = None"
    using assms(1,4) by auto
  have cont: "map (file_contents ?fs0) inputPaths = map (file_contents fs) inputPaths"
    using assms(1) by (auto simp: file_contents_def)
  have "MergeFiles outputPath inputPaths fs = merge_loop outputPath inputPaths ?fs0"
    by (simp add: MergeFiles_def cf)
  also have "\<dots> = (None, ?fs0\<lparr>files := (files ?fs0)(outputPath \<mapsto>
                  file_contents ?fs0 outputPath @ concat (map (file_contents ?fs0) inputPaths))\<rparr>)"
    using assms(1) pre by (intro merge_loop_concat) simp_all
  also have "\<dots> = (None, fs\<lparr>files := (files fs)(outputPath \<mapsto>
                  concat (map (file_contents fs) inputPaths))\<rparr>)"
    by (simp add: cont) (simp add: file_contents_def)
  finally show ?thesis .
qed

section \<open>Fetching\<close>

text \<open>
  \<open>DoRequestWithRetry\<close> makes at least one attempt, so it never returns a \<open>nil\<close> response
  with a \<open>nil\<close> error, and \<open>downloadChunk\<close> never meets one.
\<close>

lemma DoRequestWithRetry_loop_nil:
  "DoRequestWithRetry_loop att retryCount err = (None, None) \<Longrightarrow>
   err = None \<and> utils_maxRetries \<le> retryCount"
proof (induction att retryCount err rule: DoRequestWithRetry_loop.induct)
  case (1 att retryCount err)
  show ?case
  proof (cases "retryCount < utils_maxRetries")
    case False
    then show ?thesis using "1.prems" by simp
  next
    case True
    show ?thesis
    proof (cases "att retryCount")
      case NoResponse
      then show ?thesis using "1.IH"(1) "1.prems" True by simp
    next
      case (Response code body)
      show ?thesis
      proof (cases "code = 200 \<or> code = 206")
        case ok: True
        then show ?thesis using "1.prems" True Response by simp
      next
        case bad: False
        then show ?thesis using "1.IH"(2) [OF True Response] "1.prems" True Response by simp
      qed
    qed
  qed
qed

lemma DoRequestWithRetry_not_nil: "DoRequestWithRetry att \<noteq> (None, None)"
  using DoRequestWithRetry_loop_nil [of att 0 None]
  by (auto simp: DoRequestWithRetry_def utils_maxRetries_def)

lemma read_loop_no_nil_response:
  "fst (read_loop body f c fs) \<noteq> Some NilResponse"
proof (induction body arbitrary: c fs)
  case Nil
  then show ?case by simp
next
  case (Cons ev body)
  obtain bytes write_ok st where ev: "ev = (bytes, write_ok, st)" by (cases ev)
  show ?case using Cons.IH by (cases st) (simp_all add: ev Let_def)
qed

lemma downloadChunk_no_nil_response: "fst (downloadChunk env c fs) \<noteq> Some NilResponse"
  using DoRequestWithRetry_not_nil [of "attempts env"] read_loop_no_nil_response
  by (auto simp: downloadChunk_def split: prod.splits sum.splits option.splits)

section \<open>The worker pool\<close>

lemma sum_list_map_update:
  fixes f :: "'a \<Rightarrow> 'b::comm_monoid_add"
  shows "w < length ws \<Longrightarrow>
    sum_list (map f (ws[w := x])) + f (ws ! w) = sum_list (map f ws) + f x"
proof (induction ws arbitrary: w)
  case Nil
  then show ?case by simp
next
  case (Cons a ws)
  show ?case
  proof (cases w)
    case 0
    then show ?thesis by (simp add: ac_simps)
  next
    case (Suc v)
    then have "sum_list (map f (ws[v := x])) + f (ws ! v) = sum_list (map f ws) + f x"
      using Cons by simp
    then show ?thesis using Suc by (simp add: add.assoc)
  qed
qed

lemma pool_step_measure:
  assumes "pool_step s s'"
  shows "pool_measure s' < pool_measure s"
  using assms
proof (cases rule: pool_step.cases)
  case (worker_recv w chunk rest)
  show ?thesis
    using sum_list_map_update [OF worker_recv(2), of worker_rank "WFetch chunk"] worker_recv
    by (simp add: pool_measure_def)
next
  case (worker_exit w)
  show ?thesis
    using sum_list_map_update [OF worker_exit(2), of worker_rank WExit] worker_exit
    by (simp add: pool_measure_def)
next
  case (worker_fetch w chunk env r h1 fs1)
  show ?thesis
    using sum_list_map_update [OF worker_fetch(2), of worker_rank "WSend r"] worker_fetch
    by (simp add: pool_measure_def)
next
  case (worker_send w r)
  show ?thesis
    using sum_list_map_update [OF worker_send(2), of worker_rank WDone] worker_send
    by (simp add: pool_measure_def)
next
  case (worker_done w)
  show ?thesis
    using sum_list_map_update [OF worker_done(2), of worker_rank WRecv] worker_done
    by (simp add: pool_measure_def)
qed (auto simp: pool_measure_def)

lemma worker_update:
  assumes "w < length ws"
  shows "sum_list (map busy (ws[w := x])) + busy (ws ! w) = sum_list (map busy ws) + busy x"
    and "sum_list (map held (ws[w := x])) + held (ws ! w) = sum_list (map held ws) + held x"
    and "sum_list (map exited (ws[w := x])) + exited (ws ! w) = sum_list (map exited ws) + exited x"
  using assms by (rule sum_list_map_update)+

lemma nth_le_sum_list:
  fixes f :: "'a \<Rightarrow> nat"
  shows "w < length ws \<Longrightarrow> f (ws ! w) \<le> sum_list (map f ws)"
  using elem_le_sum_list [of w "map f ws"] by simp

lemma pool_init_inv: "pool_inv (pool_init numWorkers chunks h fs)"
  by (simp add: pool_inv_def pool_init_def unclosed_def)

lemma pool_step_inv:
  assumes "pool_step s s'" and inv: "pool_inv s"
  shows "pool_inv s'"
  using assms(1)
proof (cases rule: pool_step.cases)
  case (worker_recv w chunk rest)
  note U = worker_update [OF worker_recv(2), of "WFetch chunk"]
  show ?thesis
    using U inv worker_recv
    by (cases "pc_main s") (auto simp: pool_inv_def started_def unclosed_def simp del: sum_list_eq_0_iff)
next
  case (worker_exit w)
  note U = worker_update [OF worker_exit(2), of WExit]
  show ?thesis
    using U inv worker_exit
    by (cases "pc_main s") (auto simp: pool_inv_def started_def unclosed_def simp del: sum_list_eq_0_iff)
next
  case (worker_fetch w chunk env r h1 fs1)
  have r: "Chunk r = chunk"
    using worker_fetch(4) by (auto simp: process_chunk_def split: prod.splits)
  note U = worker_update [OF worker_fetch(2), of "WSend r"]
  show ?thesis
    using U r inv worker_fetch
    by (cases "pc_main s") (auto simp: pool_inv_def started_def unclosed_def simp del: sum_list_eq_0_iff)
next
  case (worker_send w r)
  note U = worker_update [OF worker_send(2), of WDone]
  have B: "1 \<le> sum_list (map busy (pc_workers s))"
    using nth_le_sum_list [OF worker_send(2), of busy] worker_send(3) by simp
  show ?thesis
    using U B inv worker_send
    by (cases "pc_main s") (auto simp: pool_inv_def started_def unclosed_def simp del: sum_list_eq_0_iff)
next
  case (worker_done w)
  note U = worker_update [OF worker_done(2), of WRecv]
  show ?thesis
    using U inv worker_done
    by (cases "pc_main s") (auto simp: pool_inv_def started_def unclosed_def simp del: sum_list_eq_0_iff)
next
  case waiter_wait
  show ?thesis
    using inv waiter_wait
    by (cases "pc_main s") (auto simp: pool_inv_def started_def unclosed_def simp del: sum_list_eq_0_iff)
next
  case waiter_close
  show ?thesis
    using inv waiter_close
    by (cases "pc_main s") (auto simp: pool_inv_def started_def unclosed_def simp del: sum_list_eq_0_iff)
qed (use inv in \<open>auto simp: pool_inv_def started_def unclosed_def simp del: sum_list_eq_0_iff\<close>)

lemma pool_step_args:
  "pool_step s s' \<Longrightarrow> arg_chunks s' = arg_chunks s \<and> arg_numWorkers s' = arg_numWorkers s"
  by (cases rule: pool_step.cases) auto

lemma pool_reachable_inv:
  assumes "pool_step\<^sup>*\<^sup>* (pool_init numWorkers chunks h fs) s"
  shows "pool_inv s \<and> arg_chunks s = chunks \<and> arg_numWorkers s = numWorkers"
  using assms
proof (induction rule: rtranclp_induct)
  case base
  show ?case by (simp add: pool_init_inv) (simp add: pool_init_def)
next
  case (step s s')
  then show ?case using pool_step_inv [of s s'] pool_step_args [of s s'] by simp
qed

lemma pool_inv_sizes:
  assumes "pool_inv s"
  shows "length (arg_chunks s)
       = length (pending (arg_chunks s) (pc_main s)) + length (jobQueue s)
         + size (sum_list (map held (pc_workers s)))
         + length (results s) + length (downloadResults s)"
proof -
  have "size (mset (arg_chunks s))
      = size (mset (pending (arg_chunks s) (pc_main s)) + mset (jobQueue s)
         + sum_list (map held (pc_workers s))
         + mset (map Chunk (results s)) + mset (map Chunk (downloadResults s)))"
    using assms by (simp only: pool_inv_def)
  then show ?thesis by simp
qed

lemma held_size_ge:
  "w < length ws \<Longrightarrow> size (held (ws ! w)) \<le> size (sum_list (map held ws))"
proof -
  assume "w < length ws"
  then have "size (held (ws ! w)) \<le> sum_list (map (\<lambda>p. size (held p)) ws)"
    by (rule nth_le_sum_list)
  also have "\<dots> = size (sum_list (map held ws))"
    by (induction ws) simp_all
  finally show ?thesis .
qed

lemma sum_list_all_zero:
  fixes f :: "'a \<Rightarrow> 'b::comm_monoid_add"
  shows "(\<And>x. x \<in> set xs \<Longrightarrow> f x = 0) \<Longrightarrow> sum_list (map f xs) = 0"
  by (induction xs) simp_all

lemma idle_worker:
  assumes "busy p = 0" "exited p = 0"
  shows "p = WRecv"
  using assms by (cases p) simp_all

lemma pool_progress:
  assumes inv: "pool_inv s" and n: "1 \<le> sint (arg_numWorkers s)"
    and run: "pc_main s \<noteq> MReturned"
  shows "\<exists>s'. pool_step s s'"
proof (cases "pc_main s")
  case (MSpawn i)
  then show ?thesis
    using pool_step.main_spawn [of s i] pool_step.main_spawned [of s i] by blast
next
  case (MAdd rest)
  then show ?thesis
    using pool_step.main_add [of s] pool_step.main_queued [of s] by (cases rest) blast+
next
  case (MSend rest)
  then obtain chunk rest' where r: "rest = chunk # rest'"
    using inv by (cases rest) (auto simp: pool_inv_def)
  have "length (jobQueue s) < length (arg_chunks s)"
    using pool_inv_sizes [OF inv] MSend r by simp
  then show ?thesis using pool_step.main_send [of s chunk rest'] MSend r by blast
next
  case MClose
  then show ?thesis using pool_step.main_close by blast
next
  case MGoWait
  then show ?thesis using pool_step.main_go by blast
next
  case MReturned
  then show ?thesis using run by simp
next
  case MCollect
  have st: "started s" and wt: "pc_waiter s \<noteq> WtIdle"
    using inv MCollect by (simp_all add: pool_inv_def)
  have "int (length (pc_workers s)) = max 0 (sint (arg_numWorkers s))"
    using st by (simp only: started_def)
  then have "0 < int (length (pc_workers s))" using n by linarith
  then have nw: "0 < length (pc_workers s)" by simp
  have wgv: "wg s = int (length (jobQueue s) + sum_list (map busy (pc_workers s)))"
    using inv MCollect by (simp add: pool_inv_def)
  have cl: "results_closed s \<longleftrightarrow> pc_waiter s = WtExit"
    using inv by (simp add: pool_inv_def)
  have ex: "0 < sum_list (map exited (pc_workers s)) \<longrightarrow> jobQueue s = []"
    using inv by (simp add: pool_inv_def)
  show ?thesis
  proof (cases "results s")
    case (Cons r rs)
    then show ?thesis using pool_step.main_collect [of s r rs] MCollect by blast
  next
    case Nil
    show ?thesis
    proof (cases "pc_waiter s")
      case WtIdle
      then show ?thesis using wt by simp
    next
      case WtExit
      then show ?thesis using pool_step.main_return [of s] MCollect Nil cl by blast
    next
      case WtClose
      then show ?thesis using pool_step.waiter_close by blast
    next
      case WtWait
      show ?thesis
      proof (cases "wg s = 0")
        case True
        then show ?thesis using pool_step.waiter_wait WtWait by blast
      next
        case False
        then have pos: "0 < wg s" using wgv by simp
        show ?thesis
        proof (cases "\<exists>w < length (pc_workers s). busy (pc_workers s ! w) \<noteq> 0")
          case True
          then obtain w where w: "w < length (pc_workers s)" "busy (pc_workers s ! w) \<noteq> 0"
            by blast
          show ?thesis
          proof (cases "pc_workers s ! w")
            case (WFetch chunk)
            obtain r h1 fs1 where
              "process_chunk \<lparr>request_fails = True, attempts = (\<lambda>k. NoResponse)\<rparr> chunk (heap s) (disk s)
                 = (r, h1, fs1)"
              by (metis prod_cases3)
            then show ?thesis using pool_step.worker_fetch [OF w(1) WFetch] by blast
          next
            case (WSend r)
            have "size (held (pc_workers s ! w)) \<le> size (sum_list (map held (pc_workers s)))"
              using w(1) by (rule held_size_ge)
            then have "1 \<le> size (sum_list (map held (pc_workers s)))"
              using WSend by simp
            then have "length (results s) < length (arg_chunks s)"
              using pool_inv_sizes [OF inv] by simp
            then show ?thesis using pool_step.worker_send [OF w(1) WSend] by blast
          next
            case WDone
            then show ?thesis using pool_step.worker_done [OF w(1) WDone pos] by blast
          next
            case WRecv
            then show ?thesis using w(2) by simp
          next
            case WExit
            then show ?thesis using w(2) by simp
          qed
        next
          case False
          then have "busy p = 0" if "p \<in> set (pc_workers s)" for p
            using that by (auto simp: in_set_conv_nth)
          then have "sum_list (map busy (pc_workers s)) = 0" by (rule sum_list_all_zero)
          then have "jobQueue s \<noteq> []"
            using pos wgv by (auto simp del: sum_list_eq_0_iff)
          then obtain chunk rest where q: "jobQueue s = chunk # rest"
            by (cases "jobQueue s") auto
          have "sum_list (map exited (pc_workers s)) = 0" using ex q by auto
          then have "exited (pc_workers s ! 0) = 0" using nw by simp
          moreover have "busy (pc_workers s ! 0) = 0" using False nw by simp
          ultimately have "pc_workers s ! 0 = WRecv" by (intro idle_worker)
          then show ?thesis using pool_step.worker_recv [OF nw _ q] by blast
        qed
      qed
    qed
  qed
qed

lemma pool_returned:
  assumes inv: "pool_inv s" and ret: "pc_main s = MReturned"
  shows "mset (map Chunk (downloadResults s)) = mset (arg_chunks s)"
proof -
  have "results s = []" "results_closed s" using inv ret by (simp_all add: pool_inv_def)
  then have "pc_waiter s = WtExit" using inv by (simp add: pool_inv_def)
  then have "wg s = 0" using inv by (simp add: pool_inv_def)
  moreover have "wg s = int (length (jobQueue s) + sum_list (map busy (pc_workers s))
      + adding (pc_main s))"
    using inv unfolding pool_inv_def by blast
  ultimately have "length (jobQueue s) + sum_list (map busy (pc_workers s)) = 0"
    by linarith
  then have z: "jobQueue s = []" "sum_list (map busy (pc_workers s)) = 0"
    by (simp_all del: sum_list_eq_0_iff)
  have "held p = {#}" if "p \<in> set (pc_workers s)" for p
  proof -
    have "busy p = 0" using z(2) that by simp
    then show ?thesis by (cases p) simp_all
  qed
  then have "sum_list (map held (pc_workers s)) = {#}"
    by (rule sum_list_all_zero)
  then show ?thesis
    using inv ret z(1) \<open>results s = []\<close> by (simp add: pool_inv_def)
qed

lemma pool_eventually_returns:
  assumes "pool_inv s" "1 \<le> sint (arg_numWorkers s)"
  shows "\<exists>s'. pool_step\<^sup>*\<^sup>* s s' \<and> pc_main s' = MReturned"
  using assms
proof (induction "pool_measure s" arbitrary: s rule: less_induct)
  case less
  show ?case
  proof (cases "pc_main s = MReturned")
    case True
    then show ?thesis by blast
  next
    case False
    then obtain s1 where s1: "pool_step s s1"
      using pool_progress [OF less.prems] by blast
    have "pool_measure s1 < pool_measure s" using s1 by (rule pool_step_measure)
    moreover have "pool_inv s1" using s1 less.prems(1) by (rule pool_step_inv)
    moreover have "1 \<le> sint (arg_numWorkers s1)"
      using pool_step_args [OF s1] less.prems(2) by simp
    ultimately obtain s' where "pool_step\<^sup>*\<^sup>* s1 s'" "pc_main s' = MReturned"
      using less.hyps by blast
    then show ?thesis using s1 by (meson converse_rtranclp_into_rtranclp)
  qed
qed

section \<open>Frame properties of the chunk operations\<close>

text \<open>
  C10. \<open>MarkFailed\<close> sets \<open>Failed\<close> and adds one to \<open>RetryCount\<close>; no other field changes,
  so the downloaded byte count and the completion flag survive. After \<open>n\<close> calls the
  counter has grown by \<open>n\<close> (in Go's \<open>int\<close> arithmetic), and as long as it stays below the
  largest \<open>int\<close> its value is the old one plus \<open>n\<close>: it never goes down.
\<close>

theorem MarkFailed_frame:
  "Failed (MarkFailed c) = True
   \<and> RetryCount (MarkFailed c) = RetryCount c + 1
   \<and> MarkFailed c = c\<lparr>Failed := True, RetryCount := RetryCount c + 1\<rparr>
   \<and> ID (MarkFailed c) = ID c \<and> URL (MarkFailed c) = URL c
   \<and> Start (MarkFailed c) = Start c \<and> End (MarkFailed c) = End c
   \<and> Size (MarkFailed c) = Size c \<and> TempFile (MarkFailed c) = TempFile c
   \<and> Downloaded (MarkFailed c) = Downloaded c \<and> Completed (MarkFailed c) = Completed c
   \<and> RetryCount ((MarkFailed ^^ n) c) = RetryCount c + of_nat n
   \<and> Downloaded ((MarkFailed ^^ n) c) = Downloaded c
   \<and> Completed ((MarkFailed ^^ n) c) = Completed c
   \<and> (sint (RetryCount c) + int n < 2 ^ 63 \<longrightarrow>
        sint (RetryCount ((MarkFailed ^^ n) c)) = sint (RetryCount c) + int n)"
proof -
  have iter: "RetryCount ((MarkFailed ^^ n) c) = RetryCount c + of_nat n
      \<and> Downloaded ((MarkFailed ^^ n) c) = Downloaded c
      \<and> Completed ((MarkFailed ^^ n) c) = Completed c"
    by (induction n) (simp_all add: MarkFailed_def)
  have num: "sint (RetryCount c + of_nat n) = sint (RetryCount c) + int n"
    if "sint (RetryCount c) + int n < 2 ^ 63"
  proof -
    have lo: "- (2 ^ 63) \<le> sint (RetryCount c)"
      using sint_ge [of "RetryCount c"] by simp
    have "(of_nat n :: 64 word) = word_of_int (int n)" by simp
    then have "RetryCount c + of_nat n = word_of_int (sint (RetryCount c) + int n)"
      by simp
    then have "sint (RetryCount c + of_nat n)
        = signed_take_bit 63 (sint (RetryCount c) + int n)"
      by (simp only: sint_sbintrunc') simp
    also have "\<dots> = sint (RetryCount c) + int n"
      using lo that by (intro signed_take_bit_int_eq_self) simp_all
    finally show ?thesis .
  qed
  show ?thesis
    using iter num by (simp add: MarkFailed_def)
qed

theorem MarkFailed_frame_witness:
  "sint (RetryCount (NewChunk 2 ''u'' 0 9 ''/tmp'')) + int 3 < 2 ^ 63
   \<and> sint (RetryCount ((MarkFailed ^^ 3) (NewChunk 2 ''u'' 0 9 ''/tmp''))) = 3
   \<and> Failed ((MarkFailed ^^ 3) (NewChunk 2 ''u'' 0 9 ''/tmp''))"
  using MarkFailed_frame [of "NewChunk 2 ''u'' 0 9 ''/tmp''" 3]
  by (simp add: NewChunk_def MarkFailed_def eval_nat_numeral)

text \<open>
  C8. \<open>ResetForRetry\<close> clears \<open>Downloaded\<close> and \<open>Failed\<close> and leaves \<open>RetryCount\<close>, the
  identity and the range of the chunk, and the path of its temporary file as they were.
\<close>

theorem ResetForRetry_frame:
  "Downloaded (snd (ResetForRetry fs c)) = 0
   \<and> Failed (snd (ResetForRetry fs c)) = False
   \<and> RetryCount (snd (ResetForRetry fs c)) = RetryCount c
   \<and> ID (snd (ResetForRetry fs c)) = ID c
   \<and> URL (snd (ResetForRetry fs c)) = URL c
   \<and> Start (snd (ResetForRetry fs c)) = Start c
   \<and> End (snd (ResetForRetry fs c)) = End c
   \<and> Size (snd (ResetForRetry fs c)) = Size c
   \<and> TempFile (snd (ResetForRetry fs c)) = TempFile c
   \<and> snd (ResetForRetry fs c) = c\<lparr>Downloaded := 0, Failed := False\<rparr>"
  by (simp add: ResetForRetry_def Let_def)

section \<open>Validation\<close>

text \<open>
  C9. \<open>ValidateChunks\<close> is false as soon as one chunk of the list is not completed or is
  failed, and true exactly when every chunk is completed and not failed.
\<close>

theorem ValidateChunks_all:
  "(ValidateChunks chunks \<longleftrightarrow> (\<forall>c \<in> set chunks. Completed c \<and> \<not> Failed c))
   \<and> (\<forall>i < length chunks. \<not> Completed (chunks ! i) \<or> Failed (chunks ! i)
          \<longrightarrow> \<not> ValidateChunks chunks)"
proof -
  have "\<not> ValidateChunks chunks"
    if "i < length chunks" "\<not> Completed (chunks ! i) \<or> Failed (chunks ! i)" for i
    using that nth_mem [of i chunks] by (auto simp: ValidateChunks_iff)
  then show ?thesis by (auto simp: ValidateChunks_iff)
qed

theorem ValidateChunks_all_witness:
  "ValidateChunks [(fresh_heap 0)\<lparr>Completed := True\<rparr>, (fresh_heap 1)\<lparr>Completed := True\<rparr>,
      (fresh_heap 2)\<lparr>Completed := True\<rparr>]
   \<and> \<not> ValidateChunks [(fresh_heap 0)\<lparr>Completed := True\<rparr>, fresh_heap 1,
      (fresh_heap 2)\<lparr>Completed := True\<rparr>]
   \<and> \<not> ValidateChunks [(fresh_heap 0)\<lparr>Completed := True\<rparr>,
      (fresh_heap 1)\<lparr>Completed := True, Failed := True\<rparr>, (fresh_heap 2)\<lparr>Completed := True\<rparr>]"
  using ValidateChunks_all [of "[(fresh_heap 0)\<lparr>Completed := True\<rparr>,
      (fresh_heap 1)\<lparr>Completed := True\<rparr>, (fresh_heap 2)\<lparr>Completed := True\<rparr>]"]
    ValidateChunks_all [of "[(fresh_heap 0)\<lparr>Completed := True\<rparr>, fresh_heap 1,
      (fresh_heap 2)\<lparr>Completed := True\<rparr>]"]
    ValidateChunks_all [of "[(fresh_heap 0)\<lparr>Completed := True\<rparr>,
      (fresh_heap 1)\<lparr>Completed := True, Failed := True\<rparr>, (fresh_heap 2)\<lparr>Completed := True\<rparr>]"]
  by (simp add: fresh_heap_def NewChunk_def)

section \<open>Completion and the byte count\<close>

text \<open>
  The run described with the example states, evaluated step by step.
\<close>

lemma fresh_heap_0:
  "fresh_heap 0 = \<lparr>ID = 0, URL = ''u'', Start = 0, End = 9, TempFile = ''/tmp/chunk_0'',
             Size = 10, Downloaded = 0, Completed = False, Failed = False, RetryCount = 0\<rparr>"
  by code_simp

lemma first_attempt_eval:
  "first_attempt
     = (\<lparr>Chunk = 0, Error = Some (ReadFailed NetError)\<rparr>,
        fresh_heap(0 := \<lparr>ID = 0, URL = ''u'', Start = 0, End = 9, TempFile = ''/tmp/chunk_0'',
             Size = 10, Downloaded = 10, Completed = True, Failed = True, RetryCount = 1\<rparr>),
        empty_fs\<lparr>files := [''/tmp/chunk_0'' \<mapsto> replicate 10 0]\<rparr>)"
proof -
  have t: "TempFile (fresh_heap 0) = ''/tmp/chunk_0''" by (simp add: fresh_heap_0)
  have d: "DoRequestWithRetry (attempts ten_bytes_then_broken)
      = (Some (206, [(replicate 10 0, True, Broken)]), None)"
    by (simp add: DoRequestWithRetry_def ten_bytes_then_broken_def utils_maxRetries_def)
  have u: "UpdateProgress 10 (fresh_heap 0) = \<lparr>ID = 0, URL = ''u'', Start = 0, End = 9, TempFile = ''/tmp/chunk_0'',
             Size = 10, Downloaded = 10, Completed = True, Failed = False, RetryCount = 0\<rparr>"
    by (simp add: UpdateProgress_def fresh_heap_0 Let_def word_sle_eq)
  have c: "os_Create ''/tmp/chunk_0'' empty_fs
      = (Inr ''/tmp/chunk_0'', empty_fs\<lparr>files := [''/tmp/chunk_0'' \<mapsto> []]\<rparr>)"
    by (simp add: os_Create_def empty_fs_def)
  have r: "request_fails ten_bytes_then_broken = False"
    by (simp add: ten_bytes_then_broken_def)
  have dl: "downloadChunk ten_bytes_then_broken (fresh_heap 0) empty_fs
      = (Some (ReadFailed NetError),
         \<lparr>ID = 0, URL = ''u'', Start = 0, End = 9, TempFile = ''/tmp/chunk_0'',
             Size = 10, Downloaded = 10, Completed = True, Failed = False, RetryCount = 0\<rparr>,
         empty_fs\<lparr>files := [''/tmp/chunk_0'' \<mapsto> replicate 10 0]\<rparr>)"
    by (simp add: downloadChunk_def t c r d u Let_def file_Write_def file_contents_def)
  show ?thesis
    by (simp add: first_attempt_def process_chunk_def dl MarkFailed_def)
qed

lemma reset_pass_eval:
  "reset_pass
     = ([0],
        fresh_heap(0 := \<lparr>ID = 0, URL = ''u'', Start = 0, End = 9, TempFile = ''/tmp/chunk_0'',
             Size = 10, Downloaded = 0, Completed = True, Failed = False, RetryCount = 1\<rparr>),
        empty_fs)"
proof -
  have e: "empty_fs\<lparr>files := Map.empty\<rparr> = empty_fs" by (simp add: empty_fs_def)
  show ?thesis
    by (simp add: reset_pass_def first_attempt_eval ResetForRetry_def word_sless_alt e)
qed

lemma second_attempt_eval:
  "second_attempt
     = (\<lparr>Chunk = 0, Error = None\<rparr>,
        fresh_heap(0 := \<lparr>ID = 0, URL = ''u'', Start = 0, End = 9, TempFile = ''/tmp/chunk_0'',
             Size = 10, Downloaded = 3, Completed = True, Failed = False, RetryCount = 1\<rparr>),
        empty_fs\<lparr>files := [''/tmp/chunk_0'' \<mapsto> replicate 3 0]\<rparr>)"
proof -
  let ?c = "\<lparr>ID = 0, URL = ''u'', Start = 0, End = 9, TempFile = ''/tmp/chunk_0'',
             Size = 10, Downloaded = 0, Completed = True, Failed = False, RetryCount = 1\<rparr>"
  have t: "TempFile ?c = ''/tmp/chunk_0''" by simp
  have d: "DoRequestWithRetry (attempts three_bytes_then_eof)
      = (Some (206, [(replicate 3 0, True, EOF)]), None)"
    by (simp add: DoRequestWithRetry_def three_bytes_then_eof_def utils_maxRetries_def)
  have u: "UpdateProgress 3 ?c = \<lparr>ID = 0, URL = ''u'', Start = 0, End = 9, TempFile = ''/tmp/chunk_0'',
             Size = 10, Downloaded = 3, Completed = True, Failed = False, RetryCount = 1\<rparr>"
    by (simp add: UpdateProgress_def Let_def word_sle_eq)
  have c: "os_Create ''/tmp/chunk_0'' empty_fs
      = (Inr ''/tmp/chunk_0'', empty_fs\<lparr>files := [''/tmp/chunk_0'' \<mapsto> []]\<rparr>)"
    by (simp add: os_Create_def empty_fs_def)
  have r: "request_fails three_bytes_then_eof = False"
    by (simp add: three_bytes_then_eof_def)
  have dl: "downloadChunk three_bytes_then_eof ?c empty_fs
      = (None, \<lparr>ID = 0, URL = ''u'', Start = 0, End = 9, TempFile = ''/tmp/chunk_0'',
             Size = 10, Downloaded = 3, Completed = True, Failed = False, RetryCount = 1\<rparr>,
         empty_fs\<lparr>files := [''/tmp/chunk_0'' \<mapsto> replicate 3 0]\<rparr>)"
    by (simp add: downloadChunk_def t c r d u Let_def file_Write_def file_contents_def)
  show ?thesis
    by (simp add: second_attempt_def reset_pass_eval process_chunk_def dl)
qed

text \<open>
  C3. The data model ties \<open>Completed\<close> to \<open>Downloaded \<ge> Size\<close>, from \<open>NewChunk\<close> on and
  through every operation on the chunk. \<open>ResetForRetry\<close> does not keep this relation: it
  sets \<open>Downloaded\<close> to 0 and does not clear \<open>Completed\<close>. On the run above, the chunk of
  ten bytes at address 0 is filled by a read that also fails, so it is completed and
  failed, and the relation holds. The retry pass resets it: it stays completed with no
  byte downloaded. The second fetch delivers three bytes and ends without an error, and
  \<open>ValidateChunks\<close> accepts the chunk with three of its ten bytes in its temporary file.
\<close>

theorem ResetForRetry_stale_Completed:
  "chunk_inv (fresh_heap 0) \<and> sint (Size (fresh_heap 0)) = 10
   \<and> Error (fst first_attempt) = Some (ReadFailed NetError)
   \<and> chunk_inv (fst (snd first_attempt) 0)
   \<and> Completed (fst (snd first_attempt) 0) \<and> Failed (fst (snd first_attempt) 0)
   \<and> sint (Downloaded (fst (snd first_attempt) 0)) = 10
   \<and> fst reset_pass = [0]
   \<and> fst (snd reset_pass) 0 = snd (ResetForRetry (snd (snd first_attempt)) (fst (snd first_attempt) 0))
   \<and> sint (Downloaded (fst (snd reset_pass) 0)) = 0
   \<and> Completed (fst (snd reset_pass) 0)
   \<and> \<not> chunk_inv (fst (snd reset_pass) 0)
   \<and> Error (fst second_attempt) = None
   \<and> sint (Downloaded (fst (snd second_attempt) 0)) = 3
   \<and> sint (Size (fst (snd second_attempt) 0)) = 10
   \<and> \<not> Failed (fst (snd second_attempt) 0)
   \<and> \<not> chunk_inv (fst (snd second_attempt) 0)
   \<and> ValidateChunks [fst (snd second_attempt) 0]
   \<and> files (snd (snd second_attempt)) ''/tmp/chunk_0'' = Some (replicate 3 0)"
proof -
  have s: "Size (fresh_heap 0) = 10" "Downloaded (fresh_heap 0) = 0"
    "\<not> Completed (fresh_heap 0)"
    by (simp_all add: fresh_heap_0)
  have a: "chunk_inv (fresh_heap 0)" "sint (Size (fresh_heap 0)) = 10"
    by (simp_all add: chunk_inv_def s word_sle_eq)
  have b: "Error (fst first_attempt) = Some (ReadFailed NetError)"
    "chunk_inv (fst (snd first_attempt) 0)"
    "Completed (fst (snd first_attempt) 0)" "Failed (fst (snd first_attempt) 0)"
    "sint (Downloaded (fst (snd first_attempt) 0)) = 10"
    by (simp_all add: first_attempt_eval chunk_inv_def s word_sle_eq)
  have c: "fst reset_pass = [0]"
    "fst (snd reset_pass) 0
       = snd (ResetForRetry (snd (snd first_attempt)) (fst (snd first_attempt) 0))"
    "sint (Downloaded (fst (snd reset_pass) 0)) = 0"
    "Completed (fst (snd reset_pass) 0)"
    "\<not> chunk_inv (fst (snd reset_pass) 0)"
    by (simp_all add: reset_pass_eval first_attempt_eval ResetForRetry_def Let_def
        chunk_inv_def s word_sle_eq)
  have d: "Error (fst second_attempt) = None"
    "sint (Downloaded (fst (snd second_attempt) 0)) = 3"
    "sint (Size (fst (snd second_attempt) 0)) = 10"
    "\<not> Failed (fst (snd second_attempt) 0)"
    "\<not> chunk_inv (fst (snd second_attempt) 0)"
    "ValidateChunks [fst (snd second_attempt) 0]"
    "files (snd (snd second_attempt)) ''/tmp/chunk_0'' = Some (replicate 3 0)"
    by (simp_all add: second_attempt_eval chunk_inv_def s word_sle_eq)
  show ?thesis using a b c d by blast
qed

text \<open>
  C4, as amended. A chunk fresh from \<open>NewChunk\<close>, of size \<open>S\<close>, receives a sequence of
  non-negative byte counts through \<open>UpdateProgress\<close>. Then \<open>Downloaded\<close> is the sum of the
  counts in \<open>int64\<close> arithmetic; it is never more than their sum, and equal to it when the
  sum fits \<open>int64\<close>. When the sum is \<open>S\<close>, and the sequence is not empty or \<open>S\<close> is not 0,
  the chunk is completed; when the sum is less than \<open>S\<close>, it is not.
\<close>

theorem UpdateProgress_sum:
  assumes "\<forall>b \<in> set bs. 0 \<le>s b"
  shows "Downloaded (fold UpdateProgress bs (NewChunk cid url start end' tempDir)) = sum_list bs
   \<and> sint (Downloaded (fold UpdateProgress bs (NewChunk cid url start end' tempDir)))
        \<le> sum_list (map sint bs)
   \<and> (sum_list (map sint bs) < 2 ^ 63 \<longrightarrow>
        sint (Downloaded (fold UpdateProgress bs (NewChunk cid url start end' tempDir)))
          = sum_list (map sint bs))
   \<and> (sum_list (map sint bs) = sint (Size (NewChunk cid url start end' tempDir))
        \<and> (bs \<noteq> [] \<or> Size (NewChunk cid url start end' tempDir) \<noteq> 0) \<longrightarrow>
        Completed (fold UpdateProgress bs (NewChunk cid url start end' tempDir)))
   \<and> (sum_list (map sint bs) < sint (Size (NewChunk cid url start end' tempDir)) \<longrightarrow>
        \<not> Completed (fold UpdateProgress bs (NewChunk cid url start end' tempDir)))"
  using fold_UpdateProgress_fresh [OF assms, of cid url start end' tempDir] by blast

theorem UpdateProgress_sum_witness:
  "(0 :: int64) \<le>s 4 \<and> (0 :: int64) \<le>s 5 \<and> (0 :: int64) \<le>s 6
   \<and> sum_list (map sint [4, 6 :: int64]) = sint (Size (NewChunk 0 ''u'' 0 9 ''/tmp''))
   \<and> Completed (fold UpdateProgress [4, 6] (NewChunk 0 ''u'' 0 9 ''/tmp''))
   \<and> sum_list (map sint [4, 5 :: int64]) < sint (Size (NewChunk 0 ''u'' 0 9 ''/tmp''))
   \<and> \<not> Completed (fold UpdateProgress [4, 5] (NewChunk 0 ''u'' 0 9 ''/tmp''))
   \<and> sint (Downloaded (fold UpdateProgress [4, 5] (NewChunk 0 ''u'' 0 9 ''/tmp''))) = 9"
proof -
  have a: "\<forall>b \<in> set [4, 6 :: int64]. 0 \<le>s b" "\<forall>b \<in> set [4, 5 :: int64]. 0 \<le>s b"
    by (simp_all add: word_sle_eq)
  have s: "sum_list (map sint [4, 6 :: int64]) = sint (Size (NewChunk 0 ''u'' 0 9 ''/tmp''))"
    "sum_list (map sint [4, 5 :: int64]) < sint (Size (NewChunk 0 ''u'' 0 9 ''/tmp''))"
    "sum_list (map sint [4, 5 :: int64]) = 9"
    by (simp_all add: NewChunk_def)
  have b: "(0 :: int64) \<le>s 4" "(0 :: int64) \<le>s 5" "(0 :: int64) \<le>s 6"
    by (simp_all add: word_sle_eq)
  show ?thesis
    using UpdateProgress_sum [OF a(1), of 0 "''u''" 0 9 "''/tmp''"]
      UpdateProgress_sum [OF a(2), of 0 "''u''" 0 9 "''/tmp''"] b s
    by simp
qed

text \<open>
  The claim as stated fails in two places. A chunk made with \<open>end = start - 1\<close> has size
  0; with no call of \<open>UpdateProgress\<close> at all the sum of the counts is 0, the size, and
  the chunk is not completed. And two counts of \<open>2^62\<close> bytes leave \<open>Downloaded\<close> at
  \<open>-2^63\<close>, not at their sum; read in \<open>int64\<close> arithmetic instead, the sum of the counts
  \<open>2^63 - 1\<close> and 1 is below the size of a chunk of ten bytes, which is completed.
\<close>

theorem UpdateProgress_sum_counterexample:
  "sum_list (map sint ([] :: int64 list)) = sint (Size (NewChunk 0 ''u'' 1 0 ''/tmp''))
   \<and> \<not> Completed (fold UpdateProgress [] (NewChunk 0 ''u'' 1 0 ''/tmp''))
   \<and> (0 :: int64) \<le>s 2 ^ 62
   \<and> sint (Downloaded (fold UpdateProgress [2 ^ 62, 2 ^ 62] (NewChunk 0 ''u'' 0 9 ''/tmp'')))
        = - (2 ^ 63)
   \<and> sum_list (map sint [2 ^ 62, 2 ^ 62 :: int64]) = 2 ^ 63
   \<and> (0 :: int64) \<le>s 2 ^ 63 - 1 \<and> (0 :: int64) \<le>s 1
   \<and> sum_list [2 ^ 63 - 1, 1 :: int64] <s Size (NewChunk 0 ''u'' 0 9 ''/tmp'')
   \<and> Completed (fold UpdateProgress [2 ^ 63 - 1, 1] (NewChunk 0 ''u'' 0 9 ''/tmp''))"
  by (simp add: UpdateProgress_def NewChunk_def Let_def word_sle_eq word_sless_alt)

section \<open>The plan covers the file\<close>

text \<open>
  C1. For a positive \<open>fileSize\<close> and any requested number of chunks, \<open>CalculateChunks\<close>
  returns chunks, at least one. The first starts at 0; each next one starts one past
  the end of the one before; every chunk but the last has the size \<open>fileSize\<close> divided
  by the number of chunks, which is the requested number brought into the range from 1 to
  \<open>fileSize\<close>; the last ends at \<open>fileSize - 1\<close>. The ranges are not empty, \<open>Size\<close> is their
  length, and put one after the other they are exactly the offsets from 0 to
  \<open>fileSize - 1\<close>, each once and in order.
\<close>

theorem CalculateChunks_partition:
  assumes "0 <s fileSize"
  shows "\<exists>chunks. CalculateChunks url fileSize numChunks tempDir = Inr chunks
     \<and> chunks \<noteq> []
     \<and> Start (chunks ! 0) = 0
     \<and> (\<forall>i. Suc i < length chunks \<longrightarrow>
            sint (Start (chunks ! Suc i)) = sint (End (chunks ! i)) + 1)
     \<and> (\<forall>i. Suc i < length chunks \<longrightarrow>
            sint (Size (chunks ! i))
              = sint fileSize div max 1 (min (sint numChunks) (sint fileSize)))
     \<and> sint (End (last chunks)) = sint fileSize - 1
     \<and> (\<forall>c \<in> set chunks. sint (Start c) \<le> sint (End c)
            \<and> sint (Size c) = sint (End c) - sint (Start c) + 1)
     \<and> concat (map (\<lambda>c. [sint (Start c) .. sint (End c)]) chunks) = [0 .. sint fileSize - 1]"
proof -
  define n where "n = (if fileSize <s (if numChunks \<le>s 0 then 1 else numChunks) then fileSize
                   else (if numChunks \<le>s 0 then 1 else numChunks))"
  define N where "N = nat (sint n)"
  define q where "q = sint fileSize div sint n"
  define mk where "mk = (\<lambda>j. NewChunk (of_nat j) url (of_nat j * int64_div fileSize n)
                  (if j = nat (sint n) - 1 then fileSize - 1
                   else of_nat j * int64_div fileSize n + int64_div fileSize n - 1) tempDir)"
  define chunks where "chunks = map mk [0 ..< N]"
  note P = CalculateChunks_planned [OF assms, where numChunks = numChunks, folded n_def]
  have res: "CalculateChunks url fileSize numChunks tempDir = Inr chunks"
    using P(1) by (simp add: chunks_def mk_def N_def)
  have n1: "1 \<le> sint n" and nF: "sint n \<le> sint fileSize"
    and nm: "sint n = max 1 (min (sint numChunks) (sint fileSize))"
    using P by simp_all
  have N0: "0 < N" and Nn: "int N = sint n" using n1 by (simp_all add: N_def)
  have len: "length chunks = N" by (simp add: chunks_def)
  have nth: "chunks ! j = mk j" if "j < N" for j
    using that by (simp add: chunks_def)
  have St: "sint (Start (mk j)) = int j * q"
    and En: "sint (End (mk j)) = (if j = N - 1 then sint fileSize - 1 else int j * q + q - 1)"
    and Sz: "sint (Size (mk j)) = sint (End (mk j)) - sint (Start (mk j)) + 1"
    if "j < N" for j
    using planned_chunk_fields(1-3) [OF n1 nF refl, of j url tempDir] that
    by (simp_all add: mk_def q_def N_def)
  have q1: "1 \<le> q" and Nq: "int N * q \<le> sint fileSize"
    using planned_chunk_fields(4,5) [OF n1 nF refl, of 0] N0 Nn
    by (simp_all add: q_def N_def)
  have jq: "int j * q + q \<le> sint fileSize" if "j < N" for j
  proof -
    have "(int j + 1) * q \<le> int N * q"
      using that q1 by (intro mult_right_mono) simp_all
    then show ?thesis using Nq by (simp add: algebra_simps)
  qed
  have c1: "chunks \<noteq> []" using N0 len by auto
  have c2: "Start (chunks ! 0) = 0"
    using nth [of 0] N0 by (simp add: mk_def NewChunk_def)
  have c3: "sint (Start (chunks ! Suc i)) = sint (End (chunks ! i)) + 1"
    if "Suc i < length chunks" for i
  proof -
    have "i < N" "Suc i < N" "i \<noteq> N - 1" using that len by simp_all
    then show ?thesis
      using nth [of i] nth [of "Suc i"] St [of "Suc i"] En [of i]
      by (simp add: algebra_simps)
  qed
  have c4: "sint (Size (chunks ! i))
              = sint fileSize div max 1 (min (sint numChunks) (sint fileSize))"
    if "Suc i < length chunks" for i
  proof -
    have "i < N" "i \<noteq> N - 1" using that len by simp_all
    then have "sint (Size (chunks ! i)) = q"
      using nth [of i] St [of i] En [of i] Sz [of i] by simp
    then show ?thesis by (simp add: q_def nm)
  qed
  have c5: "sint (End (last chunks)) = sint fileSize - 1"
  proof -
    have "last chunks = chunks ! (N - 1)"
      using c1 len by (simp add: last_conv_nth)
    then show ?thesis using nth [of "N - 1"] En [of "N - 1"] N0 by simp
  qed
  have c6: "sint (Start c) \<le> sint (End c) \<and> sint (Size c) = sint (End c) - sint (Start c) + 1"
    if "c \<in> set chunks" for c
  proof -
    from that have "c \<in> mk ` {0..<N}" by (simp add: chunks_def)
    then obtain j where j: "j < N" "c = mk j" by auto
    show ?thesis
      using St [OF j(1)] En [OF j(1)] Sz [OF j(1)] jq [OF j(1)] q1 j(2) by auto
  qed
  have "map (\<lambda>c. [sint (Start c) .. sint (End c)]) chunks
      = map (\<lambda>j. [int j * q .. (if j = N - 1 then sint fileSize - 1 else int j * q + q - 1)]) [0..<N]"
    using St En by (simp add: chunks_def)
  then have c7: "concat (map (\<lambda>c. [sint (Start c) .. sint (End c)]) chunks) = [0 .. sint fileSize - 1]"
    using concat_upto_blocks [of q N "sint fileSize" 0] q1 Nq N0 by simp
  show ?thesis
    using res c1 c2 c3 c4 c5 c6 c7 by blast
qed

theorem CalculateChunks_partition_witness:
  "0 <s (10 :: int64)
   \<and> (\<exists>chunks. CalculateChunks ''u'' 10 4 ''/tmp'' = Inr chunks
        \<and> map (\<lambda>c. (sint (Start c), sint (End c), sint (Size c))) chunks
            = [(0, 1, 2), (2, 3, 2), (4, 5, 2), (6, 9, 4)]
        \<and> concat (map (\<lambda>c. [sint (Start c) .. sint (End c)]) chunks) = [0 .. sint (10 :: int64) - 1])"
proof -
  have h: "0 <s (10 :: int64)" by (simp add: word_sless_alt)
  obtain chunks where c: "CalculateChunks ''u'' 10 4 ''/tmp'' = Inr chunks"
    "concat (map (\<lambda>c. [sint (Start c) .. sint (End c)]) chunks) = [0 .. sint (10 :: int64) - 1]"
    using CalculateChunks_partition [OF h, of "''u''" 4 "''/tmp''"] by blast
  have "map (\<lambda>c. (sint (Start c), sint (End c), sint (Size c)))
          (projr (CalculateChunks ''u'' 10 4 ''/tmp''))
        = [(0, 1, 2), (2, 3, 2), (4, 5, 2), (6, 9, 4)]"
    by code_simp
  then show ?thesis using h c by simp
qed

text \<open>
  C7. For a positive \<open>fileSize\<close> the number of chunks is the requested number, raised to 1
  and lowered to \<open>fileSize\<close>. A request of 0 or less gives the single chunk from 0 to
  \<open>fileSize - 1\<close>; a request above \<open>fileSize\<close> gives \<open>fileSize\<close> chunks of one byte each.
\<close>

theorem CalculateChunks_count:
  assumes "0 <s fileSize"
  shows "\<exists>chunks. CalculateChunks url fileSize numChunks tempDir = Inr chunks
     \<and> int (length chunks) = max 1 (min (sint numChunks) (sint fileSize))
     \<and> (numChunks \<le>s 0 \<longrightarrow> chunks = [NewChunk 0 url 0 (fileSize - 1) tempDir]
            \<and> Size (NewChunk 0 url 0 (fileSize - 1) tempDir) = fileSize)
     \<and> (fileSize <s numChunks \<longrightarrow> int (length chunks) = sint fileSize
            \<and> (\<forall>c \<in> set chunks. Size c = 1 \<and> Start c = End c))"
proof -
  define n where "n = (if fileSize <s (if numChunks \<le>s 0 then 1 else numChunks) then fileSize
                   else (if numChunks \<le>s 0 then 1 else numChunks))"
  define mk where "mk = (\<lambda>j. NewChunk (of_nat j) url (of_nat j * int64_div fileSize n)
                  (if j = nat (sint n) - 1 then fileSize - 1
                   else of_nat j * int64_div fileSize n + int64_div fileSize n - 1) tempDir)"
  define chunks where "chunks = map mk [0 ..< nat (sint n)]"
  note P = CalculateChunks_planned [OF assms, where numChunks = numChunks, folded n_def]
  have F: "0 < sint fileSize" using assms by (simp add: word_sless_alt)
  have res: "CalculateChunks url fileSize numChunks tempDir = Inr chunks"
    using P(1) by (simp add: chunks_def mk_def)
  have n1: "1 \<le> sint n" and nF: "sint n \<le> sint fileSize"
    and nm: "sint n = max 1 (min (sint numChunks) (sint fileSize))"
    using P by simp_all
  have len: "int (length chunks) = max 1 (min (sint numChunks) (sint fileSize))"
    using n1 nm by (simp add: chunks_def)
  have one: "chunks = [NewChunk 0 url 0 (fileSize - 1) tempDir]
       \<and> Size (NewChunk 0 url 0 (fileSize - 1) tempDir) = fileSize"
    if "numChunks \<le>s 0"
  proof -
    have "n = 1" using that F by (simp add: n_def word_sless_alt)
    then show ?thesis by (simp add: chunks_def mk_def NewChunk_def)
  qed
  have many: "int (length chunks) = sint fileSize \<and> (\<forall>c \<in> set chunks. Size c = 1 \<and> Start c = End c)"
    if "fileSize <s numChunks"
  proof -
    have "\<not> numChunks \<le>s 0" using that F by (simp add: word_sless_alt word_sle_eq)
    then have nf: "n = fileSize" using that by (simp add: n_def)
    have "sint (int64_div fileSize fileSize) = sint fileSize div sint fileSize"
      using F by (intro int64_div_pos)
    then have "sint (int64_div fileSize fileSize) = sint (1 :: 64 word)" using F by simp
    then have q: "int64_div fileSize fileSize = 1" by (rule signed_word_eqI)
    have last: "fileSize - 1 = (of_nat (nat (sint fileSize) - 1) :: 64 word)"
      using F by (simp add: nat_le_iff)
    have "Size (mk j) = 1 \<and> Start (mk j) = End (mk j)" for j
      using last by (simp add: mk_def NewChunk_def nf q)
    then show ?thesis using F nf by (auto simp: chunks_def)
  qed
  show ?thesis using res len one many by blast
qed

theorem CalculateChunks_count_witness:
  "0 <s (3 :: int64) \<and> (- 7 :: go_int) \<le>s 0 \<and> (3 :: int64) <s (7 :: go_int)
   \<and> (\<exists>chunks. CalculateChunks ''u'' 3 (- 7) ''/tmp'' = Inr chunks
        \<and> map (\<lambda>c. (sint (Start c), sint (End c), sint (Size c))) chunks = [(0, 2, 3)])
   \<and> (\<exists>chunks. CalculateChunks ''u'' 3 7 ''/tmp'' = Inr chunks
        \<and> length chunks = 3 \<and> (\<forall>c \<in> set chunks. Size c = 1))"
proof -
  have h: "0 <s (3 :: int64)" "(- 7 :: go_int) \<le>s 0" "(3 :: int64) <s (7 :: go_int)"
    by (simp_all add: word_sless_alt word_sle_eq)
  obtain c1 where c1: "CalculateChunks ''u'' 3 (- 7) ''/tmp'' = Inr c1"
      "c1 = [NewChunk 0 ''u'' 0 (3 - 1) ''/tmp'']"
    using CalculateChunks_count [OF h(1), of "''u''" "- 7" "''/tmp''"] h(2) by blast
  obtain c2 where c2: "CalculateChunks ''u'' 3 7 ''/tmp'' = Inr c2"
      "int (length c2) = sint (3 :: int64)" "\<forall>c \<in> set c2. Size c = 1"
    using CalculateChunks_count [OF h(1), of "''u''" 7 "''/tmp''"] h(3) by blast
  have "map (\<lambda>c. (sint (Start c), sint (End c), sint (Size c))) c1 = [(0, 2, 3)]"
    using c1(2) by (simp add: NewChunk_def)
  moreover have "length c2 = 3" using c2(2) by simp
  ultimately show ?thesis using h c1(1) c2(1,3) by simp
qed

section \<open>The merged file\<close>

text \<open>
  C2. When the output path is none of the input paths, the output file can be created
  and every input file is there and can be read, \<open>MergeFiles\<close> succeeds and the output
  file holds the contents of the input files one after the other, in the order of the
  list; no other file changes. \<open>mergeChunks\<close> passes the temporary files of the chunks
  in the order of the chunks. The output depends on the contents of the input files
  only, so not on the order in which they were written.
\<close>

theorem MergeFiles_concat:
  assumes "outputPath \<notin> set inputPaths"
    and "\<not> mkdir_fails fs outputPath" and "\<not> create_fails fs outputPath"
    and "\<forall>p \<in> set inputPaths. files fs p \<noteq> None \<and> \<not> open_fails fs p \<and> copy_fails fs p = None"
  shows "fst (MergeFiles outputPath inputPaths fs) = None
     \<and> files (snd (MergeFiles outputPath inputPaths fs)) outputPath
         = Some (concat (map (file_contents fs) inputPaths))
     \<and> (\<forall>p. p \<noteq> outputPath \<longrightarrow>
           files (snd (MergeFiles outputPath inputPaths fs)) p = files fs p)
     \<and> (\<forall>chunks. inputPaths = GetTempFilePaths chunks \<longrightarrow>
           mergeChunks outputPath chunks fs = MergeFiles outputPath inputPaths fs
           \<and> files (snd (mergeChunks outputPath chunks fs)) outputPath
               = Some (concat (map (\<lambda>c. file_contents fs (TempFile c)) chunks)))
     \<and> (\<forall>fs'. \<not> mkdir_fails fs' outputPath \<and> \<not> create_fails fs' outputPath
           \<and> (\<forall>p \<in> set inputPaths. files fs' p = files fs p
                  \<and> \<not> open_fails fs' p \<and> copy_fails fs' p = None) \<longrightarrow>
           files (snd (MergeFiles outputPath inputPaths fs')) outputPath
             = files (snd (MergeFiles outputPath inputPaths fs)) outputPath)"
proof -
  note res = MergeFiles_result [OF assms]
  have c1: "fst (MergeFiles outputPath inputPaths fs) = None"
    and c2: "files (snd (MergeFiles outputPath inputPaths fs)) outputPath
         = Some (concat (map (file_contents fs) inputPaths))"
    and c3: "\<forall>p. p \<noteq> outputPath \<longrightarrow>
           files (snd (MergeFiles outputPath inputPaths fs)) p = files fs p"
    using res by simp_all
  have c4: "mergeChunks outputPath chunks fs = MergeFiles outputPath inputPaths fs
      \<and> files (snd (mergeChunks outputPath chunks fs)) outputPath
          = Some (concat (map (\<lambda>c. file_contents fs (TempFile c)) chunks))"
    if "inputPaths = GetTempFilePaths chunks" for chunks
    using res that by (simp add: mergeChunks_def Let_def GetTempFilePaths_def comp_def)
  have c5: "files (snd (MergeFiles outputPath inputPaths fs')) outputPath
             = files (snd (MergeFiles outputPath inputPaths fs)) outputPath"
    if a: "\<not> mkdir_fails fs' outputPath" "\<not> create_fails fs' outputPath"
      and b: "\<forall>p \<in> set inputPaths. files fs' p = files fs p
                  \<and> \<not> open_fails fs' p \<and> copy_fails fs' p = None" for fs'
  proof -
    have "\<forall>p \<in> set inputPaths. files fs' p \<noteq> None \<and> \<not> open_fails fs' p \<and> copy_fails fs' p = None"
      using b assms(4) by simp
    then have "MergeFiles outputPath inputPaths fs'
      = (None, fs'\<lparr>files := (files fs')(outputPath \<mapsto> concat (map (file_contents fs') inputPaths))\<rparr>)"
      using assms(1) a by (intro MergeFiles_result) simp_all
    moreover have "map (file_contents fs') inputPaths = map (file_contents fs) inputPaths"
      using b by (intro map_cong) (simp_all add: file_contents_def)
    ultimately show ?thesis using c2 by simp
  qed
  show ?thesis using c1 c2 c3 c4 c5 by blast
qed

theorem MergeFiles_concat_witness:
  "''out'' \<notin> set (GetTempFilePaths [NewChunk 0 ''u'' 0 1 ''/tmp'', NewChunk 1 ''u'' 2 4 ''/tmp''])
   \<and> \<not> mkdir_fails chunk1_first ''out'' \<and> \<not> create_fails chunk1_first ''out''
   \<and> files chunk1_first ''/tmp/chunk_0'' = Some [1, 2]
   \<and> files chunk1_first ''/tmp/chunk_1'' = Some [3, 4, 5]
   \<and> fst (mergeChunks ''out'' [NewChunk 0 ''u'' 0 1 ''/tmp'', NewChunk 1 ''u'' 2 4 ''/tmp'']
        chunk1_first) = None
   \<and> files (snd (mergeChunks ''out'' [NewChunk 0 ''u'' 0 1 ''/tmp'', NewChunk 1 ''u'' 2 4 ''/tmp'']
        chunk1_first)) ''out'' = Some [1, 2, 3, 4, 5]
   \<and> files (snd (mergeChunks ''out'' [NewChunk 0 ''u'' 0 1 ''/tmp'', NewChunk 1 ''u'' 2 4 ''/tmp'']
        chunk0_first)) ''out'' = Some [1, 2, 3, 4, 5]"
proof -
  let ?chunks = "[NewChunk 0 ''u'' 0 1 ''/tmp'', NewChunk 1 ''u'' 2 4 ''/tmp'']"
  have paths: "GetTempFilePaths ?chunks = [''/tmp/chunk_0'', ''/tmp/chunk_1'']"
    by code_simp
  have f1: "files chunk1_first ''/tmp/chunk_0'' = Some [1, 2]"
    "files chunk1_first ''/tmp/chunk_1'' = Some [3, 4, 5]"
    "\<not> mkdir_fails chunk1_first ''out''" "\<not> create_fails chunk1_first ''out''"
    "\<forall>p \<in> set (GetTempFilePaths ?chunks). files chunk1_first p \<noteq> None
        \<and> \<not> open_fails chunk1_first p \<and> copy_fails chunk1_first p = None"
    by (simp_all add: paths chunk1_first_def file_Write_def file_contents_def empty_fs_def)
  have f0: "files chunk0_first ''/tmp/chunk_0'' = Some [1, 2]"
    "files chunk0_first ''/tmp/chunk_1'' = Some [3, 4, 5]"
    "\<not> mkdir_fails chunk0_first ''out''" "\<not> create_fails chunk0_first ''out''"
    "\<forall>p \<in> set (GetTempFilePaths ?chunks). files chunk0_first p \<noteq> None
        \<and> \<not> open_fails chunk0_first p \<and> copy_fails chunk0_first p = None"
    by (simp_all add: paths chunk0_first_def file_Write_def file_contents_def empty_fs_def)
  have out: "''out'' \<notin> set (GetTempFilePaths ?chunks)" by (simp add: paths)
  note m1 = MergeFiles_concat [OF out f1(3,4,5)]
  note m0 = MergeFiles_concat [OF out f0(3,4,5)]
  have "fst (mergeChunks ''out'' ?chunks chunk1_first) = None"
    "files (snd (mergeChunks ''out'' ?chunks chunk1_first)) ''out'' = Some [1, 2, 3, 4, 5]"
    using m1 f1(1,2) by (simp_all add: paths file_contents_def)
  moreover have
    "files (snd (mergeChunks ''out'' ?chunks chunk0_first)) ''out'' = Some [1, 2, 3, 4, 5]"
    using m0 f0(1,2) by (simp_all add: paths file_contents_def)
  ultimately show ?thesis using out f1 by simp
qed

section \<open>Results of the worker pool\<close>

lemma StartWorkerPool_results:
  assumes "StartWorkerPool numWorkers chunks h fs ((rs, err), h', fs')"
  shows "err = None \<and> mset (map Chunk rs) = mset chunks \<and> length rs = length chunks"
  using assms
proof (cases rule: StartWorkerPool.cases)
  case (returns s)
  then have i: "pool_inv s" "arg_chunks s = chunks"
    using pool_reachable_inv [of numWorkers chunks h fs s] by simp_all
  have m: "mset (map Chunk rs) = mset chunks"
    using pool_returned [OF i(1)] returns i(2) by simp
  then have "size (mset (map Chunk rs)) = size (mset chunks)" by simp
  then show ?thesis using m returns by simp
qed

lemma StartWorkerPool_exists:
  assumes "1 \<le> sint numWorkers"
  shows "\<exists>out. StartWorkerPool numWorkers chunks h fs out"
proof -
  have "arg_numWorkers (pool_init numWorkers chunks h fs) = numWorkers"
    by (simp add: pool_init_def)
  then obtain s where "pool_step\<^sup>*\<^sup>* (pool_init numWorkers chunks h fs) s" "pc_main s = MReturned"
    using pool_eventually_returns [OF pool_init_inv, of numWorkers chunks h fs] assms by auto
  then show ?thesis using StartWorkerPool.returns by blast
qed

text \<open>
  C6. With at least one worker, \<open>StartWorkerPool\<close> returns: as long as the caller has not
  returned some goroutine can move, and every step lowers the measure of the work left,
  so every run is finite and stops only after the return. What it returns is a \<open>nil\<close>
  error and one result for each chunk of the list: as many results as chunks, made for
  the same chunks with the same multiplicities. The fetches may fail or succeed in any
  way.
\<close>

theorem StartWorkerPool_one_result_per_chunk:
  assumes "1 \<le>s numWorkers"
  shows "(\<forall>s. pool_step\<^sup>*\<^sup>* (pool_init numWorkers chunks h fs) s \<longrightarrow>
            (pc_main s \<noteq> MReturned \<longrightarrow> (\<exists>s'. pool_step s s'))
            \<and> (\<forall>s'. pool_step s s' \<longrightarrow> pool_measure s' < pool_measure s))
       \<and> (\<exists>out. StartWorkerPool numWorkers chunks h fs out)
       \<and> (\<forall>rs err h' fs'. StartWorkerPool numWorkers chunks h fs ((rs, err), h', fs') \<longrightarrow>
            err = None \<and> length rs = length chunks \<and> mset (map Chunk rs) = mset chunks
            \<and> (distinct chunks \<longrightarrow> distinct (map Chunk rs)))"
proof -
  have n: "1 \<le> sint numWorkers" using assms by (simp add: word_sle_eq)
  have run: "(pc_main s \<noteq> MReturned \<longrightarrow> (\<exists>s'. pool_step s s'))
            \<and> (\<forall>s'. pool_step s s' \<longrightarrow> pool_measure s' < pool_measure s)"
    if "pool_step\<^sup>*\<^sup>* (pool_init numWorkers chunks h fs) s" for s
  proof -
    have "pool_inv s" "arg_numWorkers s = numWorkers"
      using pool_reachable_inv [OF that] by simp_all
    then show ?thesis using pool_progress [of s] pool_step_measure [of s] n by blast
  qed
  have res: "err = None \<and> length rs = length chunks \<and> mset (map Chunk rs) = mset chunks
            \<and> (distinct chunks \<longrightarrow> distinct (map Chunk rs))"
    if "StartWorkerPool numWorkers chunks h fs ((rs, err), h', fs')" for rs err h' fs'
  proof -
    note r = StartWorkerPool_results [OF that]
    then have "distinct (map Chunk rs) \<longleftrightarrow> distinct chunks"
      by (metis mset_eq_imp_distinct_iff)
    then show ?thesis using r by simp
  qed
  show ?thesis using run StartWorkerPool_exists [OF n] res by blast
qed

theorem StartWorkerPool_one_result_per_chunk_witness:
  "1 \<le>s (2 :: go_int)
   \<and> (\<exists>s'. pool_step (pool_init 2 [0, 1] fresh_heap empty_fs) s')
   \<and> (\<exists>rs h' fs'. StartWorkerPool 2 [0, 1] fresh_heap empty_fs ((rs, None), h', fs')
        \<and> length rs = 2 \<and> mset (map Chunk rs) = {#0, 1#})"
proof -
  have h: "1 \<le>s (2 :: go_int)" by (simp add: word_sle_eq)
  note T = StartWorkerPool_one_result_per_chunk [OF h, of "[0, 1]" fresh_heap empty_fs]
  have "pc_main (pool_init 2 [0, 1] fresh_heap empty_fs) \<noteq> MReturned"
    by (simp add: pool_init_def)
  then have a: "\<exists>s'. pool_step (pool_init 2 [0, 1] fresh_heap empty_fs) s'"
    using T by blast
  obtain rs err h' fs' where
    out: "StartWorkerPool 2 [0, 1] fresh_heap empty_fs ((rs, err), h', fs')"
    using T by (metis surj_pair)
  then have r: "err = None" "length rs = length [0 :: nat, 1]"
    "mset (map Chunk rs) = mset [0 :: nat, 1]"
    using T by blast+
  have l: "length rs = 2" using r(2) by simp
  have m: "mset (map Chunk rs) = {#0, 1#}" using r(3) by simp
  have "StartWorkerPool 2 [0, 1] fresh_heap empty_fs ((rs, None), h', fs')"
    using out r(1) by simp
  then show ?thesis using h a l m by blast
qed

section \<open>The retry pass\<close>








end
